theory Spec2Isabelle
  imports Complex_Main "HOL-Library.AList"
begin

section \<open>Common definitions\<close>

text \<open>
  The three scripts of the repository are independent batch jobs. Each is embedded as a
  function that takes the part of the world it reads (a file system, the clock, the
  library routines whose results the script does not determine) and returns the world it
  leaves behind together with its result. An exception of the source is a value of
  \<open>error\<close>; a function that can raise returns \<open>error + 'a\<close>, with \<open>Inl\<close> for the error.
\<close>

datatype error =
    FileNotFoundError
  | UnidentifiedImageError
  | IsADirectoryError
  | FileExistsError
  | JSONDecodeError
  | KeyError string
  | IndexError
  | TypeError
  | ZeroDivisionError
  | ValueError

text \<open>Python's \<open>sep.join(parts)\<close>.\<close>

fun join :: "string \<Rightarrow> string list \<Rightarrow> string" where
  "join sep [] = []"
| "join sep [x] = x"
| "join sep (x # y # ys) = x @ sep @ join sep (y # ys)"

text \<open>Decimal digits of an integer, as \<open>str\<close> prints it.\<close>

fun digits :: "nat \<Rightarrow> string" where
  "digits n = (if n < 10 then [char_of (48 + n)] else digits (n div 10) @ [char_of (48 + n mod 10)])"

declare digits.simps [simp del]

definition str_int :: "int \<Rightarrow> string" where
  "str_int i = (if i < 0 then CHR ''-'' # digits (nat (- i)) else digits (nat i))"

section \<open>The sitemap builder (scripts/generate-sitemap.py)\<close>

subsection \<open>JSON values as \<open>json.load\<close> returns them\<close>

text \<open>
  A JSON object is the list of the items of the Python \<open>dict\<close> that \<open>json.load\<close> builds,
  in insertion order; a key is looked up with \<open>map_of\<close>.
\<close>

datatype json =
    JNull
  | JBool bool
  | JInt int
  | JFloat rat
  | JStr string
  | JArr "json list"
  | JObj "(string \<times> json) list"

text \<open>Python's truth value of an object: \<open>None\<close>, \<open>False\<close>, zero and every empty container are falsy.\<close>

fun truthy :: "json \<Rightarrow> bool" where
  "truthy JNull = False"
| "truthy (JBool b) = b"
| "truthy (JInt n) = (n \<noteq> 0)"
| "truthy (JFloat x) = (x \<noteq> 0)"
| "truthy (JStr s) = (s \<noteq> [])"
| "truthy (JArr xs) = (xs \<noteq> [])"
| "truthy (JObj kvs) = (kvs \<noteq> [])"

text \<open>\<open>a or b\<close>: the first operand when it is truthy, else the second.\<close>

definition py_or :: "json \<Rightarrow> json \<Rightarrow> json" where
  "py_or a b = (if truthy a then a else b)"

text \<open>\<open>d.get(key)\<close> on a dict: the value, or \<open>None\<close> when the key is absent.\<close>

definition dict_get :: "(string \<times> json) list \<Rightarrow> string \<Rightarrow> json" where
  "dict_get kvs k = (case map_of kvs k of None \<Rightarrow> JNull | Some v \<Rightarrow> v)"

text \<open>
  \<open>obj[key]\<close> with a string key: a dict raises \<open>KeyError\<close> for a missing key, every other
  JSON value raises \<open>TypeError\<close> (a list or a string wants an integer index, the others are
  not subscriptable).
\<close>

fun subscript :: "json \<Rightarrow> string \<Rightarrow> error + json" where
  "subscript (JObj kvs) k = (case map_of kvs k of None \<Rightarrow> Inl (KeyError k) | Some v \<Rightarrow> Inr v)"
| "subscript _ k = Inl TypeError"

text \<open>
  \<open>for recipe in v\<close>: a list yields its elements, a string its characters, a dict its keys;
  the other JSON values are not iterable.
\<close>

fun iterate :: "json \<Rightarrow> error + json list" where
  "iterate (JArr xs) = Inr xs"
| "iterate (JStr s) = Inr (map (\<lambda>c. JStr [c]) s)"
| "iterate (JObj kvs) = Inr (map (\<lambda>kv. JStr (fst kv)) kvs)"
| "iterate _ = Inl TypeError"

text \<open>
  \<open>str(v)\<close>, which an f-string applies to a value it interpolates. A string is itself, and
  \<open>None\<close>, booleans and integers have a fixed form. The \<open>repr\<close> of a float, a list or a dict
  is the parameter \<open>repr\<close>.
\<close>

fun py_str :: "(json \<Rightarrow> string) \<Rightarrow> json \<Rightarrow> string" where
  "py_str repr (JStr s) = s"
| "py_str repr JNull = ''None''"
| "py_str repr (JBool b) = (if b then ''True'' else ''False'')"
| "py_str repr (JInt n) = str_int n"
| "py_str repr v = repr v"

subsection \<open>Configuration\<close>

text \<open>\<open>os.path.join\<close> of a directory and a relative name.\<close>

definition path_join :: "string \<Rightarrow> string \<Rightarrow> string" where
  "path_join d name = (if d = [] \<or> last d = CHR ''/'' then d @ name else d @ ''/'' @ name)"

text \<open>
  \<open>ROOT_DIR\<close> is the parent of the directory of the script; it is the parameter \<open>root_dir\<close>.
  \<open>TODAY\<close> is \<open>date.today().isoformat()\<close> at the start of the run; it is the parameter
  \<open>today\<close>.
\<close>

definition RECIPES_JSON :: "string \<Rightarrow> string" where
  "RECIPES_JSON root_dir = path_join (path_join root_dir ''data'') ''recipes.json''"

definition SITEMAP_OUT :: "string \<Rightarrow> string" where
  "SITEMAP_OUT root_dir = path_join root_dir ''sitemap.xml''"

definition BASE_URL :: string where
  "BASE_URL = ''https://yourwellnessgirly.com''"

record page =
  loc :: string
  changefreq :: string
  priority :: string
  lastmod :: string

definition STATIC_PAGES :: "string \<Rightarrow> page list" where
  "STATIC_PAGES today =
    [\<lparr>loc = ''/'', changefreq = ''weekly'', priority = ''1.0'', lastmod = today\<rparr>,
     \<lparr>loc = ''/recipe-index'', changefreq = ''weekly'', priority = ''0.9'', lastmod = today\<rparr>,
     \<lparr>loc = ''/about'', changefreq = ''monthly'', priority = ''0.8'', lastmod = ''2025-01-10''\<rparr>,
     \<lparr>loc = ''/work-with-me'', changefreq = ''monthly'', priority = ''0.7'', lastmod = ''2025-01-10''\<rparr>,
     \<lparr>loc = ''/contact'', changefreq = ''monthly'', priority = ''0.6'', lastmod = ''2025-01-10''\<rparr>]"

subsection \<open>\<open>build_url_entry\<close> and \<open>generate\<close>\<close>

definition build_url_entry :: "string \<Rightarrow> string \<Rightarrow> string \<Rightarrow> string \<Rightarrow> string" where
  "build_url_entry l lm cf pr =
     ''  <url>\<newline>'' @
     ''    <loc>'' @ BASE_URL @ l @ ''</loc>\<newline>'' @
     ''    <lastmod>'' @ lm @ ''</lastmod>\<newline>'' @
     ''    <changefreq>'' @ cf @ ''</changefreq>\<newline>'' @
     ''    <priority>'' @ pr @ ''</priority>\<newline>'' @
     ''  </url>''"

text \<open>
  Line 67: \<open>recipe.get("dateModified") or recipe.get("datePublished") or TODAY\<close>, for a
  recipe that is a dict.
\<close>

definition recipe_lastmod :: "string \<Rightarrow> (string \<times> json) list \<Rightarrow> json" where
  "recipe_lastmod today kvs =
     py_or (py_or (dict_get kvs ''dateModified'') (dict_get kvs ''datePublished'')) (JStr today)"

text \<open>
  The body of the loop of lines 65 to 70, for one recipe: the entry appended to \<open>entries\<close>,
  or the exception raised. \<open>recipe["slug"]\<close> comes first. Reaching \<open>recipe.get\<close> with a
  value that is not a dict is impossible, since \<open>recipe["slug"]\<close> has raised for it before.
\<close>

fun recipe_entry :: "(json \<Rightarrow> string) \<Rightarrow> string \<Rightarrow> json \<Rightarrow> error + string" where
  "recipe_entry repr today recipe =
     (case subscript recipe ''slug'' of
        Inl e \<Rightarrow> Inl e
      | Inr slug \<Rightarrow>
          (case recipe of
             JObj kvs \<Rightarrow>
               Inr (build_url_entry (''/recipes/'' @ py_str repr slug)
                      (py_str repr (recipe_lastmod today kvs)) ''monthly'' ''0.8'')
           | _ \<Rightarrow> Inl TypeError))"

text \<open>The loop over the recipes: it stops at the first exception.\<close>

fun recipe_entries :: "(json \<Rightarrow> string) \<Rightarrow> string \<Rightarrow> json list \<Rightarrow> error + string list" where
  "recipe_entries repr today [] = Inr []"
| "recipe_entries repr today (r # rs) =
     (case recipe_entry repr today r of
        Inl e \<Rightarrow> Inl e
      | Inr x \<Rightarrow>
          (case recipe_entries repr today rs of
             Inl e \<Rightarrow> Inl e
           | Inr xs \<Rightarrow> Inr (x # xs)))"

definition static_entries :: "string \<Rightarrow> string list" where
  "static_entries today =
     map (\<lambda>p. build_url_entry (loc p) (lastmod p) (changefreq p) (priority p)) (STATIC_PAGES today)"

definition sitemap_text :: "string list \<Rightarrow> string" where
  \<open>sitemap_text entries =
     ''<?xml version="1.0" encoding="UTF-8"?>\<newline>'' @
     ''<urlset xmlns="http://www.sitemaps.org/schemas/sitemap/0.9">\<newline>'' @
     join ''\<newline>'' entries @ ''\<newline>'' @
     ''</urlset>\<newline>''\<close>

text \<open>
  The file system the sitemap builder sees: text files by path. \<open>json_load\<close> is the JSON
  parser: \<open>None\<close> for a text that is not JSON. \<open>generate\<close> returns the file system it
  leaves and its outcome. Opening \<open>SITEMAP_OUT\<close> for writing replaces the file; the
  progress lines printed after the write are not part of the model.
\<close>

type_synonym text_fs = "string \<rightharpoonup> string"

definition generate ::
  "(string \<Rightarrow> json option) \<Rightarrow> (json \<Rightarrow> string) \<Rightarrow> string \<Rightarrow> string \<Rightarrow> text_fs \<Rightarrow> text_fs \<times> (error + unit)" where
  "generate json_load repr today root_dir fs =
     (case fs (RECIPES_JSON root_dir) of
        None \<Rightarrow> (fs, Inl FileNotFoundError)
      | Some txt \<Rightarrow>
          (case json_load txt of
             None \<Rightarrow> (fs, Inl JSONDecodeError)
           | Some data \<Rightarrow>
               (case subscript data ''recipes'' of
                  Inl e \<Rightarrow> (fs, Inl e)
                | Inr recipes \<Rightarrow>
                    (case iterate recipes of
                       Inl e \<Rightarrow> (fs, Inl e)
                     | Inr rs \<Rightarrow>
                         (case recipe_entries repr today rs of
                            Inl e \<Rightarrow> (fs, Inl e)
                          | Inr dyn \<Rightarrow>
                              (fs(SITEMAP_OUT root_dir \<mapsto>
                                    sitemap_text (''  <!-- Main pages -->'' # static_entries today
                                       @ ''\<newline>  <!-- Recipe pages -->'' # dyn)),
                               Inr ()))))))"

text \<open>
  The precedence as the specification words it, for comparison with \<open>recipe_lastmod\<close>:
  the value of \<open>"dateModified"\<close> if the key is present, else the value of
  \<open>"datePublished"\<close> if that key is present, else the run date.
\<close>

definition spec_lastmod :: "string \<Rightarrow> (string \<times> json) list \<Rightarrow> json" where
  "spec_lastmod today kvs =
     (case map_of kvs ''dateModified'' of
        Some m \<Rightarrow> m
      | None \<Rightarrow> (case map_of kvs ''datePublished'' of Some p \<Rightarrow> p | None \<Rightarrow> JStr today))"

section \<open>Python floats\<close>

text \<open>
  A Python \<open>float\<close> is an IEEE 754 binary64 number. The image scripts divide and multiply
  integers and floats, and each such operation returns the exact result rounded to the
  nearest number with a 53 bit significand, ties going to the even significand. A finite
  float is modelled by the rational it denotes, and \<open>fl\<close> is the rounding. The exponent
  range of binary64 (from \<open>-1022\<close> to \<open>1023\<close>) is not modelled: the ratios of image
  dimensions are far inside it.
\<close>

text \<open>Rounding a rational to the nearest integer, ties to even.\<close>

definition rne :: "rat \<Rightarrow> int" where
  "rne y = (let f = \<lfloor>y\<rfloor>; d = y - of_int f
            in if d < 1 / 2 then f else if 1 / 2 < d then f + 1 else if even f then f else f + 1)"

text \<open>
  The binary exponent of a positive rational \<open>x\<close>, that is the \<open>e\<close> with
  \<open>2 powi e \<le> x < 2 powi (e + 1)\<close>: halve while \<open>x \<ge> 2\<close>, double while \<open>x < 1\<close>.
\<close>

function expo_up :: "rat \<Rightarrow> nat" where
  "expo_up x = (if x < 2 then 0 else Suc (expo_up (x / 2)))"
  by pat_completeness auto
termination
proof (relation "measure (\<lambda>x. nat \<lfloor>x\<rfloor>)")
  show "wf (measure (\<lambda>x::rat. nat \<lfloor>x\<rfloor>))" by simp
next
  fix x :: rat
  assume "\<not> x < 2"
  then have "x / 2 \<le> x - 1" by simp
  then have "\<lfloor>x / 2\<rfloor> \<le> \<lfloor>x - 1\<rfloor>" by (rule floor_mono)
  moreover have "1 \<le> \<lfloor>x\<rfloor>" using \<open>\<not> x < 2\<close> by (simp add: le_floor_iff)
  ultimately show "(x / 2, x) \<in> measure (\<lambda>x. nat \<lfloor>x\<rfloor>)" by simp
qed

function expo_down :: "rat \<Rightarrow> nat" where
  "expo_down x = (if x \<le> 0 \<or> 1 \<le> x then 0 else Suc (expo_down (2 * x)))"
  by pat_completeness auto
termination
proof (relation "measure (\<lambda>x. nat \<lceil>1 / x\<rceil>)")
  show "wf (measure (\<lambda>x::rat. nat \<lceil>1 / x\<rceil>))" by simp
next
  fix x :: rat
  assume "\<not> (x \<le> 0 \<or> 1 \<le> x)"
  then have x: "0 < x" "x < 1" by auto
  then have y: "1 < 1 / x" by simp
  have "\<lceil>1 / (2 * x)\<rceil> < \<lceil>1 / x\<rceil>"
  proof (cases "2 \<le> 1 / x")
    case True
    have "(of_int \<lceil>1 / (2 * x)\<rceil> :: rat) < 1 / (2 * x) + 1" by linarith
    also have "\<dots> \<le> 1 / x" using True x by (simp add: field_simps)
    also have "\<dots> \<le> of_int \<lceil>1 / x\<rceil>" by linarith
    finally show ?thesis by simp
  next
    case False
    then have "1 / (2 * x) \<le> 1" using x by (simp add: field_simps)
    then have "\<lceil>1 / (2 * x)\<rceil> \<le> 1" by (simp add: ceiling_le_iff)
    moreover have "1 < \<lceil>1 / x\<rceil>" using y by (simp add: less_ceiling_iff)
    ultimately show ?thesis by linarith
  qed
  moreover have "0 < \<lceil>1 / x\<rceil>" using x by (simp add: less_ceiling_iff)
  ultimately show "(2 * x, x) \<in> measure (\<lambda>x. nat \<lceil>1 / x\<rceil>)" by simp
qed

declare expo_up.simps [simp del] expo_down.simps [simp del]

definition expo :: "rat \<Rightarrow> int" where
  "expo x = (if 1 \<le> x then int (expo_up x) else - int (expo_down x))"

text \<open>Round to nearest, ties to even, with 53 significant bits.\<close>

definition fl :: "rat \<Rightarrow> rat" where
  "fl x = (if x = 0 then 0
           else let u = 2 powi (expo \<bar>x\<bar> - 52) in of_int (rne (x / u)) * u)"

text \<open>\<open>int(x)\<close> of a float truncates towards zero.\<close>

definition py_int :: "rat \<Rightarrow> int" where
  "py_int x = (if 0 \<le> x then \<lfloor>x\<rfloor> else \<lceil>x\<rceil>)"

section \<open>The responsive image generator (scripts/create-responsive-images.py)\<close>

subsection \<open>Images and the imaging library\<close>

text \<open>
  An image as the imaging library holds it: its size, its mode and its pixels. Pixel
  \<open>(x, y)\<close> of image \<open>im\<close> is \<open>img_data im x y\<close>, for \<open>0 \<le> x < img_width im\<close> and
  \<open>0 \<le> y < img_height im\<close>.
\<close>

record 'p image =
  img_width :: int
  img_height :: int
  img_mode :: string
  img_data :: "int \<Rightarrow> int \<Rightarrow> 'p"

text \<open>
  \<open>img.convert('RGB')\<close> keeps the size. The converted pixels are the library's business:
  \<open>to_rgb\<close> is a parameter.
\<close>

definition convert_rgb :: "('p image \<Rightarrow> int \<Rightarrow> int \<Rightarrow> 'p) \<Rightarrow> 'p image \<Rightarrow> 'p image" where
  "convert_rgb to_rgb img = img\<lparr>img_mode := ''RGB'', img_data := to_rgb img\<rparr>"

text \<open>
  \<open>img.resize((w, h), Image.LANCZOS)\<close>: a copy when the size does not change, a
  \<open>ValueError\<close> when a requested side is below one pixel, else an image of the requested
  size. The resampled pixels are the parameter \<open>lanczos\<close>.
\<close>

definition resize ::
  "('p image \<Rightarrow> int \<Rightarrow> int \<Rightarrow> int \<Rightarrow> int \<Rightarrow> 'p) \<Rightarrow> 'p image \<Rightarrow> int \<Rightarrow> int \<Rightarrow> error + 'p image" where
  "resize lanczos img w h =
     (if img_width img = w \<and> img_height img = h then Inr img
      else if w < 1 \<or> h < 1 then Inl ValueError
      else Inr \<lparr>img_width = w, img_height = h, img_mode = img_mode img,
                img_data = lanczos img w h\<rparr>)"

text \<open>
  \<open>img.crop((left, upper, right, lower))\<close>: the region of that box, of size
  \<open>(right - left, lower - upper)\<close>; what the box covers outside the image is filled with
  zero. A box with \<open>right < left\<close> or \<open>lower < upper\<close> raises \<open>ValueError\<close>.
\<close>

definition crop :: "'p::zero image \<Rightarrow> int \<times> int \<times> int \<times> int \<Rightarrow> error + 'p image" where
  "crop img box =
     (case box of (left, upper, right, lower) \<Rightarrow>
        if right < left \<or> lower < upper then Inl ValueError
        else Inr \<lparr>img_width = right - left, img_height = lower - upper, img_mode = img_mode img,
                  img_data = (\<lambda>x y. if 0 \<le> x + left \<and> x + left < img_width img
                                         \<and> 0 \<le> y + upper \<and> y + upper < img_height img
                                       then img_data img (x + left) (y + upper) else 0)\<rparr>)"

subsection \<open>The file system\<close>

text \<open>
  What \<open>save\<close> is asked to write: the format, the quality and the \<open>optimize\<close> flag.
\<close>

record encoding =
  enc_format :: string
  enc_quality :: nat
  enc_optimize :: bool

text \<open>
  A file is an image file, standing for the image it decodes to together with the
  encoding it was written with, or a file that is not an image. The loss of a lossy
  encoding is not modelled: it does not change the size of the image.
\<close>

datatype 'p file_body = ImageFile encoding "'p image" | OtherFile

record 'p fs =
  dirs :: "string set"
  files :: "string \<rightharpoonup> 'p file_body"

text \<open>\<open>s.split(c)\<close>.\<close>

fun split_on :: "char \<Rightarrow> string \<Rightarrow> string list" where
  "split_on c [] = [[]]"
| "split_on c (x # xs) =
     (if x = c then [] # split_on c xs
      else (case split_on c xs of [] \<Rightarrow> [[x]] | y # ys \<Rightarrow> (x # y) # ys))"

text \<open>
  \<open>os.makedirs(path, exist_ok=True)\<close> for a relative path: the directory and every
  directory above it exist afterwards. \<open>dir_chain\<close> lists them, outermost first. Paths are
  compared as strings. Failures of the operating system (a file in the way, missing
  permissions, a full disk) are outside the model, here and in \<open>save\<close>.
\<close>

fun dir_chain :: "string \<Rightarrow> string list \<Rightarrow> string list" where
  "dir_chain acc [] = []"
| "dir_chain acc (c # cs) =
     (let d = (if acc = [] then c else acc @ ''/'' @ c) in d # dir_chain d cs)"

definition makedirs :: "'p fs \<Rightarrow> string \<Rightarrow> 'p fs" where
  "makedirs fs path =
     fs\<lparr>dirs := dirs fs \<union> set (dir_chain [] (filter (\<lambda>c. c \<noteq> []) (split_on CHR ''/'' path)))\<rparr>"

text \<open>
  \<open>Image.open(path)\<close>, with the decoding that the first use of the image triggers.
\<close>

definition image_open :: "'p fs \<Rightarrow> string \<Rightarrow> error + 'p image" where
  "image_open fs path =
     (case files fs path of
        None \<Rightarrow> if path \<in> dirs fs then Inl IsADirectoryError else Inl FileNotFoundError
      | Some OtherFile \<Rightarrow> Inl UnidentifiedImageError
      | Some (ImageFile enc img) \<Rightarrow> Inr img)"

text \<open>
  \<open>img.save(path, format, quality=q, optimize=True)\<close>. Writing is taken to succeed: the
  failures of the operating system, and an encoder that refuses the image (its mode, or a
  side beyond what the format allows), are outside the model.
\<close>

definition save :: "'p fs \<Rightarrow> string \<Rightarrow> encoding \<Rightarrow> 'p image \<Rightarrow> 'p fs" where
  "save fs path enc img = fs\<lparr>files := (files fs)(path \<mapsto> ImageFile enc img)\<rparr>"

definition JPEG_85 :: encoding where
  "JPEG_85 = \<lparr>enc_format = ''JPEG'', enc_quality = 85, enc_optimize = True\<rparr>"

definition WebP_80 :: encoding where
  "WebP_80 = \<lparr>enc_format = ''WebP'', enc_quality = 80, enc_optimize = True\<rparr>"

text \<open>
  \<open>Path(p).stem\<close>: the last component of the path without its last suffix. A name has a
  suffix when its last dot is neither its first nor its last character.
\<close>

definition rfind :: "char \<Rightarrow> string \<Rightarrow> int" where
  "rfind c s =
     (if c \<in> set s then int (length s) - 1 - int (length (takeWhile (\<lambda>x. x \<noteq> c) (rev s)))
      else - 1)"

definition path_name :: "string \<Rightarrow> string" where
  "path_name p =
     (let cs = filter (\<lambda>c. c \<noteq> [] \<and> c \<noteq> ''.'') (split_on CHR ''/'' p)
      in if cs = [] then [] else last cs)"

definition stem :: "string \<Rightarrow> string" where
  "stem p =
     (let name = path_name p; i = rfind CHR ''.'' name
      in if 0 < i \<and> i < int (length name) - 1 then take (nat i) name else name)"

subsection \<open>\<open>create_responsive_images\<close>\<close>

text \<open>
  The size table of lines 25 to 45. A Python dict keeps its insertion order, so a profile
  is the list of its buckets: the size name and the target \<open>(width, height)\<close>.
\<close>

definition sizes :: "(string \<times> (string \<times> int \<times> int) list) list" where
  "sizes =
    [(''hero'', [(''400'', (400, 500)), (''800'', (800, 1000)),
                 (''1200'', (1200, 1500)), (''1600'', (1600, 2000))]),
     (''card'', [(''300'', (300, 225)), (''600'', (600, 450))]),
     (''process'', [(''400'', (400, 300)), (''800'', (800, 600))]),
     (''gallery'', [(''300'', (300, 300)), (''600'', (600, 600)), (''1200'', (1200, 900))])]"

text \<open>
  Lines 66 to 76: the size the image is resized to before the crop. \<open>a / b\<close> of two
  integers is the correctly rounded quotient and raises \<open>ZeroDivisionError\<close> for \<open>b = 0\<close>;
  an integer that meets a float is converted to a float first.
\<close>

definition new_size :: "int \<Rightarrow> int \<Rightarrow> int \<Rightarrow> int \<Rightarrow> error + int \<times> int" where
  "new_size original_width original_height width height =
     (if original_height = 0 then Inl ZeroDivisionError
      else if height = 0 then Inl ZeroDivisionError
      else
        let img_ratio = fl (of_int original_width / of_int original_height);
            target_ratio = fl (of_int width / of_int height)
        in if img_ratio > target_ratio
           then Inr (py_int (fl (fl (of_int height) * img_ratio)), height)
           else if img_ratio = 0 then Inl ZeroDivisionError
           else Inr (width, py_int (fl (fl (of_int width) / img_ratio))))"

text \<open>Lines 83 to 86: the box of the centre crop.\<close>

definition crop_box :: "int \<Rightarrow> int \<Rightarrow> int \<Rightarrow> int \<Rightarrow> int \<times> int \<times> int \<times> int" where
  "crop_box new_width new_height width height =
     (let left = (new_width - width) div 2;
          top' = (new_height - height) div 2;
          right = left + width;
          bottom' = top' + height
      in (left, top', right, bottom'))"

text \<open>Lines 82 to 87: the crop happens only when the resized image is not of the target size.\<close>

definition center_crop :: "'p::zero image \<Rightarrow> int \<Rightarrow> int \<Rightarrow> int \<Rightarrow> int \<Rightarrow> error + 'p image" where
  "center_crop resized new_width new_height width height =
     (if new_width \<noteq> width \<or> new_height \<noteq> height
      then crop resized (crop_box new_width new_height width height)
      else Inr resized)"

text \<open>Lines 66 to 87: the variant of one bucket.\<close>

definition variant ::
  "('p::zero image \<Rightarrow> int \<Rightarrow> int \<Rightarrow> int \<Rightarrow> int \<Rightarrow> 'p) \<Rightarrow> 'p image \<Rightarrow> int \<Rightarrow> int \<Rightarrow> error + 'p image" where
  "variant lanczos img width height =
     (case new_size (img_width img) (img_height img) width height of
        Inl e \<Rightarrow> Inl e
      | Inr (new_width, new_height) \<Rightarrow>
          (case resize lanczos img new_width new_height of
             Inl e \<Rightarrow> Inl e
           | Inr resized \<Rightarrow> center_crop resized new_width new_height width height))"

definition jpg_path :: "string \<Rightarrow> string \<Rightarrow> string \<Rightarrow> string" where
  "jpg_path recipe_dir base_name size_name = recipe_dir @ ''/'' @ base_name @ ''-'' @ size_name @ ''.jpg''"

definition webp_path :: "string \<Rightarrow> string \<Rightarrow> string \<Rightarrow> string" where
  "webp_path recipe_dir base_name size_name = recipe_dir @ ''/'' @ base_name @ ''-'' @ size_name @ ''.webp''"

text \<open>
  The loop of lines 64 to 97 over the buckets of the profile. An exception ends it, with
  the file system as it is at that moment.
\<close>

fun variants_loop ::
  "('p::zero image \<Rightarrow> int \<Rightarrow> int \<Rightarrow> int \<Rightarrow> int \<Rightarrow> 'p) \<Rightarrow> 'p image \<Rightarrow> string \<Rightarrow> string \<Rightarrow>
   'p fs \<Rightarrow> (string \<times> int \<times> int) list \<Rightarrow> 'p fs \<times> (error + unit)" where
  "variants_loop lanczos img recipe_dir base_name fs [] = (fs, Inr ())"
| "variants_loop lanczos img recipe_dir base_name fs ((size_name, width, height) # rest) =
     (case variant lanczos img width height of
        Inl e \<Rightarrow> (fs, Inl e)
      | Inr resized \<Rightarrow>
          variants_loop lanczos img recipe_dir base_name
            (save (save fs (jpg_path recipe_dir base_name size_name) JPEG_85 resized)
               (webp_path recipe_dir base_name size_name) WebP_80 resized)
            rest)"

text \<open>
  \<open>create_responsive_images\<close>: the directory is made first, then the source is opened,
  and \<open>sizes[image_type]\<close> is looked up when the loop starts. The lines printed are not
  part of the model.
\<close>

definition create_responsive_images ::
  "('p::zero image \<Rightarrow> int \<Rightarrow> int \<Rightarrow> 'p) \<Rightarrow> ('p image \<Rightarrow> int \<Rightarrow> int \<Rightarrow> int \<Rightarrow> int \<Rightarrow> 'p) \<Rightarrow>
   'p fs \<Rightarrow> string \<Rightarrow> string \<Rightarrow> string \<Rightarrow> 'p fs \<times> (error + unit)" where
  "create_responsive_images to_rgb lanczos fs input_path recipe_name image_type =
     (let recipe_dir = ''images/recipes/'' @ recipe_name;
          fs1 = makedirs fs recipe_dir
      in case image_open fs1 input_path of
           Inl e \<Rightarrow> (fs1, Inl e)
         | Inr opened \<Rightarrow>
             (let img = (if img_mode opened \<in> {''RGBA'', ''LA'', ''P''}
                         then convert_rgb to_rgb opened else opened);
                  base_name = stem input_path
              in case map_of sizes image_type of
                   None \<Rightarrow> (fs1, Inl (KeyError image_type))
                 | Some buckets \<Rightarrow> variants_loop lanczos img recipe_dir base_name fs1 buckets))"

subsection \<open>\<open>generate_picture_element\<close>\<close>

definition sizes_map :: "(string \<times> string list) list" where
  "sizes_map =
    [(''hero'', [''400'', ''800'', ''1200'', ''1600'']),
     (''card'', [''300'', ''600'']),
     (''process'', [''400'', ''800'']),
     (''gallery'', [''300'', ''600'', ''1200''])]"

text \<open>The entries of lines 116 and 117 for one size.\<close>

definition webp_entry :: "string \<Rightarrow> string \<Rightarrow> string \<Rightarrow> string" where
  "webp_entry recipe_name base_name sz =
     ''../images/recipes/'' @ recipe_name @ ''/'' @ base_name @ ''-'' @ sz @ ''.webp '' @ sz @ ''w''"

definition jpg_entry :: "string \<Rightarrow> string \<Rightarrow> string \<Rightarrow> string" where
  "jpg_entry recipe_name base_name sz =
     ''../images/recipes/'' @ recipe_name @ ''/'' @ base_name @ ''-'' @ sz @ ''.jpg '' @ sz @ ''w''"

text \<open>
  The loop of lines 115 to 117: each size appends one entry to \<open>webp_srcset\<close> and one to
  \<open>jpg_srcset\<close>.
\<close>

fun srcset_loop ::
  "string \<Rightarrow> string \<Rightarrow> string list \<times> string list \<Rightarrow> string list \<Rightarrow> string list \<times> string list" where
  "srcset_loop recipe_name base_name (webp_srcset, jpg_srcset) [] = (webp_srcset, jpg_srcset)"
| "srcset_loop recipe_name base_name (webp_srcset, jpg_srcset) (sz # rest) =
     srcset_loop recipe_name base_name
       (webp_srcset @ [webp_entry recipe_name base_name sz],
        jpg_srcset @ [jpg_entry recipe_name base_name sz])
       rest"

definition sizes_attr :: "string \<Rightarrow> string" where
  "sizes_attr image_type =
     (if image_type = ''hero''
      then ''(max-width: 480px) 100vw, (max-width: 768px) 100vw, (max-width: 1200px) 60vw, 735px''
      else if image_type = ''card'' then ''(max-width: 768px) 50vw, 300px''
      else if image_type = ''process'' then ''(max-width: 768px) 100vw, 400px''
      else ''(max-width: 768px) 50vw, 300px'')"

text \<open>
  \<open>generate_picture_element\<close>. \<open>width\<close> and \<open>height\<close> are integers, \<open>fetchpriority\<close> is
  \<open>None\<close> or a string, and the attribute is added when it is truthy. \<open>sizes[-1]\<close> raises
  \<open>IndexError\<close> on an empty list. The local \<open>sizes\<close> of the source is \<open>size_names\<close> here,
  and the loop variable \<open>size\<close> is \<open>sz\<close>.
\<close>

definition generate_picture_element ::
  "string \<Rightarrow> string \<Rightarrow> string \<Rightarrow> string \<Rightarrow> int \<Rightarrow> int \<Rightarrow> string \<Rightarrow> string option \<Rightarrow> error + string" where
  \<open>generate_picture_element recipe_name base_name image_type alt_text width height loading fetchpriority =
     (case map_of sizes_map image_type of
        None \<Rightarrow> Inl (KeyError image_type)
      | Some size_names \<Rightarrow>
          (case srcset_loop recipe_name base_name ([], []) size_names of
             (webp_srcset, jpg_srcset) \<Rightarrow>
               if size_names = [] then Inl IndexError
               else
                 let picture_html =
                       ''<picture>\<newline>'' @
                       ''    <source\<newline>'' @
                       ''        srcset="'' @ join '', '' webp_srcset @ ''"\<newline>'' @
                       ''        type="image/webp">\<newline>'' @
                       ''    <img\<newline>'' @
                       ''        src="../images/recipes/'' @ recipe_name @ ''/'' @ base_name @ ''-''
                                   @ last size_names @ ''.jpg"\<newline>'' @
                       ''        srcset="'' @ join '', '' jpg_srcset @ ''"\<newline>'' @
                       ''        sizes="'' @ sizes_attr image_type @ ''"\<newline>'' @
                       ''        width="'' @ str_int width @ ''"\<newline>'' @
                       ''        height="'' @ str_int height @ ''"\<newline>'' @
                       ''        alt="'' @ alt_text @ ''"\<newline>'' @
                       ''        loading="'' @ loading @ ''"'';
                     picture_html2 =
                       (case fetchpriority of
                          None \<Rightarrow> picture_html
                        | Some fp \<Rightarrow>
                            if fp = [] then picture_html
                            else picture_html @ ''\<newline>        fetchpriority="'' @ fp @ ''"'')
                 in Inr (picture_html2 @ '' />\<newline></picture>'')))\<close>

section \<open>The format converter (convert-to-webp.py)\<close>

subsection \<open>The image directory\<close>

text \<open>
  The converter works in one directory. An entry of the directory is a regular file or a
  sub-directory, with its modification time (\<open>os.path.getmtime\<close>, a float of seconds) and
  its size in bytes. The directory is the list of its entries by name, in the order in
  which \<open>os.listdir\<close> returns them; writing a file replaces the entry of that name or adds
  one.
\<close>

datatype 'p kind = Regular "'p file_body" | Directory

record 'p entry =
  ent_mtime :: rat
  ent_size :: nat
  ent_kind :: "'p kind"

record 'p folder =
  dir_exists :: bool
  dir_entries :: "(string \<times> 'p entry) list"

definition image_dir :: string where
  "image_dir = ''/Users/douniabenazha/Desktop/YWG.com/images/recipes/brownie-batter-bars/''"

definition listdir :: "'p folder \<Rightarrow> string list" where
  "listdir st = map fst (dir_entries st)"

definition lookup :: "'p folder \<Rightarrow> string \<Rightarrow> 'p entry option" where
  "lookup st name = map_of (dir_entries st) name"

definition write_entry :: "'p folder \<Rightarrow> string \<Rightarrow> 'p entry \<Rightarrow> 'p folder" where
  "write_entry st name e = st\<lparr>dir_entries := AList.update name e (dir_entries st)\<rparr>"

text \<open>\<open>os.path.getmtime\<close> and \<open>os.path.getsize\<close> raise for a path that does not exist.\<close>

definition getmtime :: "'p folder \<Rightarrow> string \<Rightarrow> error + rat" where
  "getmtime st name = (case lookup st name of None \<Rightarrow> Inl FileNotFoundError | Some e \<Rightarrow> Inr (ent_mtime e))"

definition getsize :: "'p folder \<Rightarrow> string \<Rightarrow> error + nat" where
  "getsize st name = (case lookup st name of None \<Rightarrow> Inl FileNotFoundError | Some e \<Rightarrow> Inr (ent_size e))"

subsection \<open>Names\<close>

text \<open>\<open>s.lower()\<close> on the letters A to Z, which is all that the test for \<open>.jpg\<close> can see.\<close>

definition lower_char :: "char \<Rightarrow> char" where
  "lower_char c = (let n = (of_char c :: nat) in if 65 \<le> n \<and> n \<le> 90 then char_of (n + 32) else c)"

definition endswith :: "string \<Rightarrow> string \<Rightarrow> bool" where
  "endswith s suffix = (length suffix \<le> length s \<and> drop (length s - length suffix) s = suffix)"

text \<open>Line 43: \<open>f.lower().endswith('.jpg')\<close>.\<close>

definition is_jpg :: "string \<Rightarrow> bool" where
  "is_jpg f = endswith (map lower_char f) ''.jpg''"

text \<open>Line 53: \<open>jpg_file.rsplit('.', 1)[0] + '.webp'\<close>.\<close>

definition rsplit_head :: "string \<Rightarrow> string" where
  "rsplit_head s = (if CHR ''.'' \<in> set s then take (nat (rfind CHR ''.'' s)) s else s)"

definition webp_name :: "string \<Rightarrow> string" where
  "webp_name jpg_file = rsplit_head jpg_file @ ''.webp''"

subsection \<open>What the converter prints\<close>

text \<open>
  One value per \<open>print\<close> of the script, holding what the line interpolates: the two lines of
  a successful conversion (lines 26 and 27), the error line of line 30 with the path and
  the exception, the skip line of line 58, the summary of line 64 with
  \<open>converted_count\<close>, and the fixed lines 37, 40, 46 and 65.
\<close>

datatype event =
    DirectoryNotFound string
  | Converting
  | NoJpgFound
  | Converted string string
  | Sizes nat nat rat
  | ErrorConverting string error
  | Skipping string
  | Complete nat
  | Hint

subsection \<open>\<open>convert_jpg_to_webp\<close>\<close>

text \<open>
  The library and the clock enter as parameters: \<open>rgb_pixels\<close> gives the pixels of
  \<open>img.convert('RGB')\<close>, \<open>webp_bytes\<close> the size in bytes of the WebP encoding of an image,
  and \<open>write_time jpg_file\<close> the reading of the clock at the moment the output for
  \<open>jpg_file\<close> is saved, which becomes the modification time of the output.
\<close>

record 'p world =
  rgb_pixels :: "'p image \<Rightarrow> int \<Rightarrow> int \<Rightarrow> 'p"
  webp_bytes :: "'p image \<Rightarrow> nat"
  write_time :: "string \<Rightarrow> rat"

definition WebP_85 :: encoding where
  "WebP_85 = \<lparr>enc_format = ''WebP'', enc_quality = 85, enc_optimize = True\<rparr>"

text \<open>\<open>Image.open\<close> in the image directory.\<close>

definition open_entry :: "'p folder \<Rightarrow> string \<Rightarrow> error + 'p image" where
  "open_entry st name =
     (case lookup st name of
        None \<Rightarrow> Inl FileNotFoundError
      | Some e \<Rightarrow>
          (case ent_kind e of
             Directory \<Rightarrow> Inl IsADirectoryError
           | Regular OtherFile \<Rightarrow> Inl UnidentifiedImageError
           | Regular (ImageFile enc img) \<Rightarrow> Inr img))"

definition is_directory :: "'p folder \<Rightarrow> string \<Rightarrow> bool" where
  "is_directory st name =
     (case lookup st name of
        None \<Rightarrow> False
      | Some e \<Rightarrow> (case ent_kind e of Directory \<Rightarrow> True | Regular b \<Rightarrow> False))"

text \<open>
  The body of the \<open>try\<close> of lines 13 to 27: the directory as the body leaves it, and the
  lines printed or the exception raised. \<open>save\<close> raises when the output path is a
  directory, and an exception after the \<open>save\<close> leaves the output written. The saving is \<open>((jpg_size - webp_size) / jpg_size) * 100\<close> in floats.
\<close>

definition try_convert ::
  "'p world \<Rightarrow> 'p folder \<Rightarrow> string \<Rightarrow> string \<Rightarrow> 'p folder \<times> (error + event list)" where
  "try_convert w st jpg_file webp_file =
     (case open_entry st jpg_file of
        Inl e \<Rightarrow> (st, Inl e)
      | Inr opened \<Rightarrow>
          (let img = (if img_mode opened \<in> {''RGBA'', ''P''}
                      then convert_rgb (rgb_pixels w) opened else opened)
           in if is_directory st webp_file then (st, Inl IsADirectoryError)
              else
                  (let st1 = write_entry st webp_file
                               \<lparr>ent_mtime = write_time w jpg_file, ent_size = webp_bytes w img,
                                ent_kind = Regular (ImageFile WebP_85 img)\<rparr>
                   in case getsize st1 jpg_file of
                        Inl e \<Rightarrow> (st1, Inl e)
                      | Inr jpg_size \<Rightarrow>
                          (case getsize st1 webp_file of
                             Inl e \<Rightarrow> (st1, Inl e)
                           | Inr webp_size \<Rightarrow>
                               if jpg_size = 0 then (st1, Inl ZeroDivisionError)
                               else (st1, Inr [Converted jpg_file webp_file,
                                       Sizes (jpg_size div 1024) (webp_size div 1024)
                                         (fl (fl ((of_int (int jpg_size - int webp_size))
                                                  / of_nat jpg_size) * 100))])))))"

text \<open>
  \<open>convert_jpg_to_webp\<close>: \<open>except Exception as e\<close> turns every exception of the body into
  the error line, and the function returns normally either way.
\<close>

definition convert_jpg_to_webp ::
  "'p world \<Rightarrow> 'p folder \<Rightarrow> string \<Rightarrow> string \<Rightarrow> 'p folder \<times> event list" where
  "convert_jpg_to_webp w st jpg_file webp_file =
     (case try_convert w st jpg_file webp_file of
        (st1, Inl e) \<Rightarrow> (st1, [ErrorConverting (path_join image_dir jpg_file) e])
      | (st1, Inr lines) \<Rightarrow> (st1, lines))"

subsection \<open>\<open>main\<close>\<close>

text \<open>
  Line 57: \<open>os.path.exists(webp_path) and os.path.getmtime(webp_path) >
  os.path.getmtime(jpg_path)\<close>. The \<open>and\<close> does not look at the times when the output does
  not exist.
\<close>

definition up_to_date :: "'p folder \<Rightarrow> string \<Rightarrow> string \<Rightarrow> error + bool" where
  "up_to_date st jpg_file webp_file =
     (case lookup st webp_file of
        None \<Rightarrow> Inr False
      | Some out \<Rightarrow>
          (case getmtime st jpg_file of
             Inl e \<Rightarrow> Inl e
           | Inr t \<Rightarrow> Inr (ent_mtime out > t)))"

text \<open>
  The loop of lines 51 to 62, with \<open>converted_count\<close> and the lines printed so far. An
  exception outside \<open>convert_jpg_to_webp\<close> ends the loop and the script.
\<close>

fun main_loop ::
  "'p world \<Rightarrow> 'p folder \<times> nat \<times> event list \<Rightarrow> string list \<Rightarrow>
   'p folder \<times> nat \<times> event list \<times> error option" where
  "main_loop w (st, converted_count, out) [] = (st, converted_count, out, None)"
| "main_loop w (st, converted_count, out) (jpg_file # rest) =
     (let webp_file = webp_name jpg_file
      in case up_to_date st jpg_file webp_file of
           Inl e \<Rightarrow> (st, converted_count, out, Some e)
         | Inr True \<Rightarrow> main_loop w (st, converted_count, out @ [Skipping jpg_file]) rest
         | Inr False \<Rightarrow>
             (case convert_jpg_to_webp w st jpg_file webp_file of
                (st1, lines) \<Rightarrow> main_loop w (st1, converted_count + 1, out @ lines) rest))"

definition jpg_files :: "'p folder \<Rightarrow> string list" where
  "jpg_files st = filter is_jpg (listdir st)"

text \<open>\<open>main\<close>: the directory it leaves, the lines it prints, and the exception if it raises.\<close>

definition main :: "'p world \<Rightarrow> 'p folder \<Rightarrow> 'p folder \<times> event list \<times> error option" where
  "main w st =
     (if \<not> dir_exists st then (st, [DirectoryNotFound image_dir], None)
      else if jpg_files st = [] then (st, [Converting, NoJpgFound], None)
      else
        (case main_loop w (st, 0, [Converting]) (jpg_files st) of
           (st1, converted_count, out, None) \<Rightarrow> (st1, out @ [Complete converted_count, Hint], None)
         | (st1, converted_count, out, Some e) \<Rightarrow> (st1, out, Some e)))"

section \<open>Properties of the sitemap builder\<close>

lemma recipe_entries_fails:
  "r \<in> set rs \<Longrightarrow> recipe_entry repr today r = Inl e \<Longrightarrow> \<exists>e'. recipe_entries repr today rs = Inl e'"
  by (induction rs) (auto split: sum.splits)

lemma map_of_filter_other:
  "map_of (filter (\<lambda>kv. fst kv \<noteq> k) kvs) k' = (if k' = k then None else map_of kvs k')"
  by (induction kvs) auto

text \<open>
  C4, as the code has it. The last-modified value of a recipe is the value of
  \<open>"dateModified"\<close> if the key is present with a truthy value, else the value of
  \<open>"datePublished"\<close> if that key is present with a truthy value, else the run date. A
  record that has a slug yields an entry whatever date keys it has or lacks: the dates never
  cause an error.
\<close>

theorem lastmod_precedence:
  "recipe_lastmod today kvs =
     (let published_or_today =
            (case map_of kvs ''datePublished'' of
               Some p \<Rightarrow> if truthy p then p else JStr today
             | None \<Rightarrow> JStr today)
      in case map_of kvs ''dateModified'' of
           Some m \<Rightarrow> if truthy m then m else published_or_today
         | None \<Rightarrow> published_or_today)
   \<and> (map_of kvs ''slug'' = Some slug \<longrightarrow>
        recipe_entry repr today (JObj kvs) =
          Inr (build_url_entry (''/recipes/'' @ py_str repr slug)
                 (py_str repr (recipe_lastmod today kvs)) ''monthly'' ''0.8''))"
  by (simp add: recipe_lastmod_def py_or_def dict_get_def Let_def split: option.splits)

theorem lastmod_precedence_witness:
  "recipe_lastmod ''2026-11-03'' [(''slug'', JStr ''granola'')] = JStr ''2026-11-03''
   \<and> map_of [(''slug'', JStr ''granola'')] ''slug'' = Some (JStr ''granola'')
   \<and> recipe_entry (\<lambda>v. []) ''2026-11-03'' (JObj [(''slug'', JStr ''granola'')]) =
        Inr (build_url_entry ''/recipes/granola'' ''2026-11-03'' ''monthly'' ''0.8'')"
  using lastmod_precedence [of "''2026-11-03''" "[(''slug'', JStr ''granola'')]"
          "JStr ''granola''" "\<lambda>v. []"]
  by simp

text \<open>
  C4 as stated fails: a record whose \<open>"dateModified"\<close> key is present with the empty string
  does not get that value as its last-modified date; the published date is used.
\<close>

theorem lastmod_present_counterexample:
  "map_of [(''slug'', JStr ''granola''), (''dateModified'', JStr ''''),
           (''datePublished'', JStr ''2024-05-01'')] ''dateModified'' = Some (JStr '''')
   \<and> spec_lastmod ''2026-11-03''
         [(''slug'', JStr ''granola''), (''dateModified'', JStr ''''),
          (''datePublished'', JStr ''2024-05-01'')] = JStr ''''
   \<and> recipe_lastmod ''2026-11-03''
         [(''slug'', JStr ''granola''), (''dateModified'', JStr ''''),
          (''datePublished'', JStr ''2024-05-01'')] = JStr ''2024-05-01''"
  by (simp add: spec_lastmod_def recipe_lastmod_def py_or_def dict_get_def)

text \<open>
  C10. A \<open>"dateModified"\<close> key that is present with a falsy value is treated as if the key
  were absent: the result is the one for the record without that key, which is the value of
  \<open>"datePublished"\<close> if truthy, else the run date.
\<close>

theorem lastmod_falsy_falls_through:
  assumes "map_of kvs ''dateModified'' = Some m" and "\<not> truthy m"
  shows "recipe_lastmod today kvs =
           recipe_lastmod today (filter (\<lambda>kv. fst kv \<noteq> ''dateModified'') kvs)
         \<and> recipe_lastmod today kvs =
           (if truthy (dict_get kvs ''datePublished'') then dict_get kvs ''datePublished''
            else JStr today)"
  using assms
  by (simp add: recipe_lastmod_def py_or_def dict_get_def map_of_filter_other)

theorem lastmod_falsy_falls_through_witness:
  "map_of [(''slug'', JStr ''granola''), (''dateModified'', JStr ''''),
           (''datePublished'', JStr ''2024-05-01'')] ''dateModified'' = Some (JStr '''')
   \<and> \<not> truthy (JStr '''')
   \<and> recipe_lastmod ''2026-11-03''
         [(''slug'', JStr ''granola''), (''dateModified'', JStr ''''),
          (''datePublished'', JStr ''2024-05-01'')] = JStr ''2024-05-01''
   \<and> recipe_lastmod ''2026-11-03''
         [(''slug'', JStr ''granola''), (''dateModified'', JNull)] = JStr ''2026-11-03''"
  using lastmod_falsy_falls_through [of "[(''slug'', JStr ''granola''), (''dateModified'', JStr ''''),
          (''datePublished'', JStr ''2024-05-01'')]" "JStr ''''" "''2026-11-03''"]
        lastmod_falsy_falls_through [of "[(''slug'', JStr ''granola''), (''dateModified'', JNull)]"
          JNull "''2026-11-03''"]
  by (simp add: dict_get_def recipe_lastmod_def py_or_def)

text \<open>
  C5. If the recipes file is missing, or is not JSON, or some record of the recipes array
  is an object without the \<open>"slug"\<close> key, then \<open>generate\<close> raises and leaves the file system
  as it found it. More generally, whenever \<open>generate\<close> raises, no file has been written.
\<close>

theorem generate_fails_before_write:
  "(fs (RECIPES_JSON root_dir) = None
    \<or> (\<exists>txt. fs (RECIPES_JSON root_dir) = Some txt \<and> json_load txt = None)
    \<or> (\<exists>txt kvs rs ks. fs (RECIPES_JSON root_dir) = Some txt
          \<and> json_load txt = Some (JObj kvs) \<and> map_of kvs ''recipes'' = Some (JArr rs)
          \<and> JObj ks \<in> set rs \<and> map_of ks ''slug'' = None)
    \<longrightarrow> (\<exists>e. generate json_load repr today root_dir fs = (fs, Inl e)))
   \<and> (\<forall>fs' e. generate json_load repr today root_dir fs = (fs', Inl e) \<longrightarrow> fs' = fs)"
proof (intro conjI impI allI)
  assume "fs (RECIPES_JSON root_dir) = None
    \<or> (\<exists>txt. fs (RECIPES_JSON root_dir) = Some txt \<and> json_load txt = None)
    \<or> (\<exists>txt kvs rs ks. fs (RECIPES_JSON root_dir) = Some txt
          \<and> json_load txt = Some (JObj kvs) \<and> map_of kvs ''recipes'' = Some (JArr rs)
          \<and> JObj ks \<in> set rs \<and> map_of ks ''slug'' = None)"
  then consider
      (missing) "fs (RECIPES_JSON root_dir) = None"
    | (malformed) doc where "fs (RECIPES_JSON root_dir) = Some doc" "json_load doc = None"
    | (no_slug) doc kvs rs ks where "fs (RECIPES_JSON root_dir) = Some doc"
        "json_load doc = Some (JObj kvs)" "map_of kvs ''recipes'' = Some (JArr rs)"
        "JObj ks \<in> set rs" "map_of ks ''slug'' = None"
    by auto
  then show "\<exists>e. generate json_load repr today root_dir fs = (fs, Inl e)"
  proof cases
    case missing
    then show ?thesis by (simp add: generate_def)
  next
    case malformed
    then show ?thesis by (simp add: generate_def)
  next
    case no_slug
    have "recipe_entry repr today (JObj ks) = Inl (KeyError ''slug'')"
      using no_slug(5) by simp
    with no_slug(4) obtain e' where "recipe_entries repr today rs = Inl e'"
      using recipe_entries_fails by blast
    with no_slug(1-3) show ?thesis by (simp add: generate_def)
  qed
next
  fix fs' e
  assume "generate json_load repr today root_dir fs = (fs', Inl e)"
  then show "fs' = fs"
    by (auto simp: generate_def split: option.splits sum.splits)
qed

theorem generate_fails_before_write_witness:
  "(Map.empty :: text_fs) (RECIPES_JSON ''/site'') = None
   \<and> (\<exists>e. generate (\<lambda>s. None) (\<lambda>v. []) ''2026-11-03'' ''/site'' Map.empty = (Map.empty, Inl e))
   \<and> (\<exists>ks. JObj ks \<in> set [JObj [(''slug'', JStr ''granola'')], JObj [(''title'', JStr ''Soup'')]]
          \<and> map_of ks ''slug'' = None)
   \<and> (\<exists>e. generate (\<lambda>s. Some (JObj [(''recipes'',
                 JArr [JObj [(''slug'', JStr ''granola'')], JObj [(''title'', JStr ''Soup'')]])]))
              (\<lambda>v. []) ''2026-11-03'' ''/site''
              [''/site/data/recipes.json'' \<mapsto> ''recipes'', ''/site/sitemap.xml'' \<mapsto> ''old'']
          = ([''/site/data/recipes.json'' \<mapsto> ''recipes'', ''/site/sitemap.xml'' \<mapsto> ''old''], Inl e))
   \<and> (\<exists>e. generate (\<lambda>s. None) (\<lambda>v. []) ''2026-11-03'' ''/site''
              [''/site/data/recipes.json'' \<mapsto> ''{ recipes'', ''/site/sitemap.xml'' \<mapsto> ''old'']
          = ([''/site/data/recipes.json'' \<mapsto> ''{ recipes'', ''/site/sitemap.xml'' \<mapsto> ''old''], Inl e))"
proof -
  have a: "\<exists>e. generate (\<lambda>s. None) (\<lambda>v. []) ''2026-11-03'' ''/site'' Map.empty = (Map.empty, Inl e)"
    using generate_fails_before_write
            [of Map.empty "''/site''" "\<lambda>s. None" "\<lambda>v. []" "''2026-11-03''"]
    by simp
  have b: "\<exists>ks. JObj ks \<in> set [JObj [(''slug'', JStr ''granola'')], JObj [(''title'', JStr ''Soup'')]]
          \<and> map_of ks ''slug'' = None"
    by (rule exI [of _ "[(''title'', JStr ''Soup'')]"]) simp
  have c: "\<exists>e. generate (\<lambda>s. Some (JObj [(''recipes'',
                 JArr [JObj [(''slug'', JStr ''granola'')], JObj [(''title'', JStr ''Soup'')]])]))
              (\<lambda>v. []) ''2026-11-03'' ''/site''
              [''/site/data/recipes.json'' \<mapsto> ''recipes'', ''/site/sitemap.xml'' \<mapsto> ''old'']
          = ([''/site/data/recipes.json'' \<mapsto> ''recipes'', ''/site/sitemap.xml'' \<mapsto> ''old''], Inl e)"
    using b generate_fails_before_write
            [of "[''/site/data/recipes.json'' \<mapsto> ''recipes'', ''/site/sitemap.xml'' \<mapsto> ''old'']"
                "''/site''"
                "\<lambda>s. Some (JObj [(''recipes'',
                   JArr [JObj [(''slug'', JStr ''granola'')], JObj [(''title'', JStr ''Soup'')]])])"
                "\<lambda>v. []" "''2026-11-03''"]
    by (simp add: RECIPES_JSON_def path_join_def)
  have d: "\<exists>e. generate (\<lambda>s. None) (\<lambda>v. []) ''2026-11-03'' ''/site''
              [''/site/data/recipes.json'' \<mapsto> ''{ recipes'', ''/site/sitemap.xml'' \<mapsto> ''old'']
          = ([''/site/data/recipes.json'' \<mapsto> ''{ recipes'', ''/site/sitemap.xml'' \<mapsto> ''old''], Inl e)"
    using generate_fails_before_write
            [of "[''/site/data/recipes.json'' \<mapsto> ''{ recipes'', ''/site/sitemap.xml'' \<mapsto> ''old'']"
                "''/site''" "\<lambda>s. None" "\<lambda>v. []" "''2026-11-03''"]
    by (simp add: RECIPES_JSON_def path_join_def)
  show ?thesis using a b c d by (simp add: RECIPES_JSON_def path_join_def)
qed

section \<open>Properties of the rounding\<close>

text \<open>
  The exponent found by halving and doubling is the binary exponent, the rounding is
  monotone on the positive rationals, and a rounded value rounds to itself. These are the
  facts about floats that the size computation needs.
\<close>

lemma expo_up_bounds: "1 \<le> x \<Longrightarrow> 2 ^ expo_up x \<le> x \<and> x < 2 ^ Suc (expo_up x)"
proof (induction x rule: expo_up.induct)
  case (1 x)
  show ?case
  proof (cases "x < 2")
    case True
    with "1.prems" show ?thesis by (simp add: expo_up.simps)
  next
    case False
    then have "1 \<le> x / 2" by simp
    with "1.IH" False have "2 ^ expo_up (x / 2) \<le> x / 2 \<and> x / 2 < 2 ^ Suc (expo_up (x / 2))"
      by blast
    moreover have "expo_up x = Suc (expo_up (x / 2))"
      using False by (subst expo_up.simps) simp
    ultimately show ?thesis by simp
  qed
qed

lemma expo_down_bounds:
  "0 < x \<Longrightarrow> x < 1 \<Longrightarrow> 1 \<le> x * 2 ^ expo_down x \<and> x * 2 ^ expo_down x < 2 \<and> 0 < expo_down x"
proof (induction x rule: expo_down.induct)
  case (1 x)
  from "1.prems" have step: "expo_down x = Suc (expo_down (2 * x))"
    by (subst expo_down.simps) simp
  show ?case
  proof (cases "1 \<le> 2 * x")
    case True
    then have "expo_down (2 * x) = 0" by (subst expo_down.simps) simp
    with step True "1.prems" show ?thesis by simp
  next
    case False
    with "1.IH" "1.prems"
    have "1 \<le> 2 * x * 2 ^ expo_down (2 * x) \<and> 2 * x * 2 ^ expo_down (2 * x) < 2"
      by simp
    with step show ?thesis by (simp add: mult.assoc mult.left_commute)
  qed
qed

lemma expo_bounds:
  assumes "0 < x"
  shows "2 powi expo x \<le> x" and "x < 2 powi (expo x + 1)"
proof -
  have "2 powi expo x \<le> x \<and> x < 2 powi (expo x + 1)"
  proof (cases "1 \<le> x")
    case True
    then have e: "expo x = int (expo_up x)" by (simp add: expo_def)
    have s: "int (expo_up x) + 1 = int (Suc (expo_up x))" by simp
    from expo_up_bounds [OF True] show ?thesis
      unfolding e s power_int_of_nat .
  next
    case False
    then have lt: "x < 1" by simp
    from expo_down_bounds [OF assms lt]
    have a: "1 \<le> x * 2 ^ expo_down x" and b: "x * 2 ^ expo_down x < 2"
      and k: "0 < expo_down x" by auto
    from k obtain j where j: "expo_down x = Suc j" by (cases "expo_down x") auto
    have e: "expo x = - int (Suc j)" using False j by (simp add: expo_def)
    have s: "- int (Suc j) + 1 = - int j" by simp
    have p: "(2::rat) powi (- int (Suc j)) = inverse (2 ^ Suc j)"
      by (simp only: power_int_minus power_int_of_nat)
    have q: "(2::rat) powi (- int j) = inverse (2 ^ j)"
      by (simp only: power_int_minus power_int_of_nat)
    have pos: "(0::rat) < 2 ^ Suc j" "(0::rat) < 2 ^ j" by simp_all
    from a have "1 \<le> x * 2 ^ Suc j" by (simp only: j)
    then have lo: "inverse (2 ^ Suc j) \<le> x"
      using pos(1) by (simp add: field_simps)
    from b have "x * 2 ^ Suc j < 2" by (simp only: j)
    then have hi: "x < inverse (2 ^ j)"
      using pos(2) by (simp add: field_simps)
    from lo hi show ?thesis unfolding e s p q by blast
  qed
  then show "2 powi expo x \<le> x" and "x < 2 powi (expo x + 1)" by simp_all
qed

lemma powi2_less_imp: "(2::rat) powi m < 2 powi n \<Longrightarrow> m < n"
proof (rule ccontr)
  assume a: "(2::rat) powi m < 2 powi n" and "\<not> m < n"
  then have "n \<le> m" by simp
  then have "(2::rat) powi n \<le> 2 powi m" by (intro power_int_increasing) simp_all
  with a show False by simp
qed

lemma expo_unique:
  assumes "0 < x" "2 powi a \<le> x" "x < 2 powi (a + 1)"
  shows "expo x = a"
proof -
  have "(2::rat) powi expo x < 2 powi (a + 1)"
    using expo_bounds(1) [OF assms(1)] assms(3) by simp
  then have "expo x < a + 1" by (rule powi2_less_imp)
  moreover have "(2::rat) powi a < 2 powi (expo x + 1)"
    using expo_bounds(2) [OF assms(1)] assms(2) by simp
  then have "a < expo x + 1" by (rule powi2_less_imp)
  ultimately show ?thesis by simp
qed

lemma expo_mono: "0 < x \<Longrightarrow> x \<le> y \<Longrightarrow> expo x \<le> expo y"
proof -
  assume x: "0 < x" and xy: "x \<le> y"
  then have y: "0 < y" by simp
  have "(2::rat) powi expo x < 2 powi (expo y + 1)"
    using expo_bounds(1) [OF x] expo_bounds(2) [OF y] xy by simp
  then have "expo x < expo y + 1" by (rule powi2_less_imp)
  then show ?thesis by simp
qed

lemma rne_of_int: "rne (of_int n) = n"
  by (simp add: rne_def)

lemma rne_mono: "a \<le> b \<Longrightarrow> rne a \<le> rne b"
proof -
  assume ab: "a \<le> b"
  then have f: "\<lfloor>a\<rfloor> \<le> \<lfloor>b\<rfloor>" by (rule floor_mono)
  have la: "rne a \<le> \<lfloor>a\<rfloor> + 1" and lb: "\<lfloor>b\<rfloor> \<le> rne b"
    by (simp_all add: rne_def Let_def)
  show ?thesis
  proof (cases "\<lfloor>a\<rfloor> = \<lfloor>b\<rfloor>")
    case True
    with ab have "a - of_int \<lfloor>a\<rfloor> \<le> b - of_int \<lfloor>b\<rfloor>" by simp
    with True show ?thesis by (auto simp: rne_def Let_def)
  next
    case False
    with f have "\<lfloor>a\<rfloor> + 1 \<le> \<lfloor>b\<rfloor>" by simp
    with la lb show ?thesis by linarith
  qed
qed

lemma powi2_split: "(2::rat) powi e = 2 ^ 52 * 2 powi (e - 52)"
proof -
  have "(2::rat) powi (52 + (e - 52)) = 2 powi 52 * 2 powi (e - 52)"
    by (rule power_int_add) simp
  then show ?thesis by simp
qed

lemma powi2_succ: "(2::rat) powi (e + 1) = 2 * 2 powi e"
proof -
  have "(2::rat) powi (e + 1) = 2 powi e * 2" by (rule power_int_add_1) simp
  then show ?thesis by simp
qed

lemma fl_form:
  assumes "0 < x"
  shows "fl x = of_int (rne (x / 2 powi (expo x - 52))) * 2 powi (expo x - 52)"
    and "2 ^ 52 \<le> rne (x / 2 powi (expo x - 52))"
    and "rne (x / 2 powi (expo x - 52)) \<le> 2 ^ 53"
proof -
  let ?u = "(2::rat) powi (expo x - 52)"
  have u: "0 < ?u" by simp
  show "fl x = of_int (rne (x / ?u)) * ?u"
    using assms by (simp add: fl_def Let_def)
  have "2 ^ 52 * ?u \<le> x" using expo_bounds(1) [OF assms] powi2_split [of "expo x"] by simp
  then have "of_int (2 ^ 52) \<le> x / ?u" using u by (simp add: pos_le_divide_eq)
  then have "rne (of_int (2 ^ 52)) \<le> rne (x / ?u)" by (rule rne_mono)
  then show "2 ^ 52 \<le> rne (x / ?u)" by (simp only: rne_of_int)
  have "x < 2 * (2 ^ 52 * ?u)"
    using expo_bounds(2) [OF assms] powi2_succ [of "expo x"] powi2_split [of "expo x"] by simp
  then have "x / ?u \<le> of_int (2 ^ 53)" using u by (simp add: pos_divide_le_eq)
  then have "rne (x / ?u) \<le> rne (of_int (2 ^ 53))" by (rule rne_mono)
  then show "rne (x / ?u) \<le> 2 ^ 53" by (simp only: rne_of_int)
qed

lemma fl_bounds:
  assumes "0 < x"
  shows "2 powi expo x \<le> fl x" and "fl x \<le> 2 powi (expo x + 1)"
proof -
  let ?u = "(2::rat) powi (expo x - 52)"
  let ?m = "rne (x / ?u)"
  have u: "0 < ?u" by simp
  have "(of_int (2 ^ 52) :: rat) \<le> of_int ?m"
    using fl_form(2) [OF assms] by (simp only: of_int_le_iff)
  then have "2 ^ 52 * ?u \<le> of_int ?m * ?u" using u by simp
  then show "2 powi expo x \<le> fl x"
    using fl_form(1) [OF assms] powi2_split [of "expo x"] by simp
  have "(of_int ?m :: rat) \<le> of_int (2 ^ 53)"
    using fl_form(3) [OF assms] by (simp only: of_int_le_iff)
  then have "of_int ?m * ?u \<le> 2 ^ 53 * ?u" using u by simp
  then show "fl x \<le> 2 powi (expo x + 1)"
    using fl_form(1) [OF assms] powi2_succ [of "expo x"] powi2_split [of "expo x"] by simp
qed

lemma fl_pos: "0 < x \<Longrightarrow> 0 < fl x"
proof -
  assume x: "0 < x"
  have "(0::rat) < 2 powi expo x" by simp
  with fl_bounds(1) [OF x] show ?thesis by linarith
qed

lemma fl_mono:
  assumes "0 < x" "x \<le> y"
  shows "fl x \<le> fl y"
proof -
  from assms have y: "0 < y" by simp
  have le: "expo x \<le> expo y" using assms by (rule expo_mono)
  show ?thesis
  proof (cases "expo x = expo y")
    case True
    let ?u = "(2::rat) powi (expo y - 52)"
    have u: "0 < ?u" by simp
    from assms(2) u have "x / ?u \<le> y / ?u" by (simp add: divide_right_mono)
    then have "rne (x / ?u) \<le> rne (y / ?u)" by (rule rne_mono)
    then have "(of_int (rne (x / ?u)) :: rat) * ?u \<le> of_int (rne (y / ?u)) * ?u"
      using u by simp
    then show ?thesis
      using fl_form(1) [OF assms(1)] fl_form(1) [OF y] True by simp
  next
    case False
    with le have "expo x + 1 \<le> expo y" by simp
    then have "(2::rat) powi (expo x + 1) \<le> 2 powi expo y"
      by (intro power_int_increasing) simp_all
    with fl_bounds(2) [OF assms(1)] fl_bounds(1) [OF y] show ?thesis by linarith
  qed
qed

lemma fl_idem:
  assumes "0 < x"
  shows "fl (fl x) = fl x"
proof -
  let ?e = "expo x"
  let ?u = "(2::rat) powi (?e - 52)"
  let ?m = "rne (x / ?u)"
  have u: "0 < ?u" by simp
  have f: "fl x = of_int ?m * ?u" by (rule fl_form(1) [OF assms])
  have p: "0 < fl x" by (rule fl_pos [OF assms])
  show ?thesis
  proof (cases "?m = 2 ^ 53")
    case True
    have v: "fl x = 2 powi (?e + 1)"
      using f True powi2_succ [of ?e] powi2_split [of ?e] by simp
    have "(2::rat) powi (?e + 1) < 2 powi (?e + 1 + 1)"
      by (intro power_int_strict_increasing) simp_all
    then have "expo (fl x) = ?e + 1"
      using p v by (intro expo_unique) simp_all
    then have "fl (fl x) = of_int (rne (fl x / 2 powi (?e + 1 - 52))) * 2 powi (?e + 1 - 52)"
      using fl_form(1) [OF p] by simp
    moreover have "fl x / 2 powi (?e + 1 - 52) = of_int (2 ^ 52)"
      using v powi2_split [of "?e + 1"] by simp
    ultimately have "fl (fl x) = of_int (rne (of_int (2 ^ 52))) * 2 powi (?e + 1 - 52)"
      by simp
    then have "fl (fl x) = 2 ^ 52 * 2 powi (?e + 1 - 52)" by (simp only: rne_of_int) simp
    then show ?thesis using v powi2_split [of "?e + 1"] by simp
  next
    case False
    with fl_form(3) [OF assms] have "?m < 2 ^ 53" by simp
    then have "(of_int ?m :: rat) < of_int (2 ^ 53)" by (simp only: of_int_less_iff)
    then have "of_int ?m * ?u < 2 ^ 53 * ?u" using u by simp
    then have hi: "fl x < 2 powi (?e + 1)"
      using f powi2_succ [of ?e] powi2_split [of ?e] by simp
    have "expo (fl x) = ?e"
      using p fl_bounds(1) [OF assms] hi by (intro expo_unique)
    then have "fl (fl x) = of_int (rne (fl x / ?u)) * ?u"
      using fl_form(1) [OF p] by simp
    moreover have "fl x / ?u = of_int ?m" using f u by simp
    ultimately have "fl (fl x) = of_int (rne (of_int ?m)) * ?u" by simp
    then show ?thesis using f by (simp only: rne_of_int)
  qed
qed

section \<open>Properties of the responsive image generator\<close>

subsection \<open>The size before the crop\<close>

text \<open>
  \<open>new_size_covers\<close> is the bound for any target whose sides are floats and for which
  dividing the width by the rounded ratio of the target does not fall below the height.
  Every target of the size table is such a target, by evaluation.
\<close>

lemma py_int_ge: "of_int n \<le> x \<Longrightarrow> 0 \<le> n \<Longrightarrow> n \<le> py_int x"
  by (simp add: py_int_def le_floor_iff)

lemma fl_of_float_ge:
  assumes "0 < x" "0 < c" "fl c < fl x"
  shows "c \<le> fl x"
proof (rule ccontr)
  assume "\<not> c \<le> fl x"
  then have "fl x \<le> c" by simp
  with fl_pos [OF assms(1)] have "fl (fl x) \<le> fl c" by (rule fl_mono)
  then have "fl x \<le> fl c" by (simp only: fl_idem [OF assms(1)])
  with assms(3) show False by simp
qed

lemma new_size_covers:
  assumes ow: "0 < ow" and oh: "0 < oh" and W: "0 < W" and H: "0 < H"
    and fW: "fl (of_int W) = of_int W" and fH: "fl (of_int H) = of_int H"
    and key: "of_int H \<le> fl (of_int W / fl (of_int W / of_int H))"
  shows "\<exists>nw nh. new_size ow oh W H = Inr (nw, nh) \<and> W \<le> nw \<and> H \<le> nh
           \<and> (if fl (of_int W / of_int H) < fl (of_int ow / of_int oh) then nh = H else nw = W)"
proof -
  let ?q = "of_int ow / of_int oh :: rat"
  let ?c = "of_int W / of_int H :: rat"
  have q: "0 < ?q" using ow oh by simp
  have c: "0 < ?c" using W H by simp
  have r: "0 < fl ?q" using q by (rule fl_pos)
  have t: "0 < fl ?c" using c by (rule fl_pos)
  have Wr: "(0::rat) < of_int W" and Hr: "(0::rat) < of_int H" using W H by simp_all
  show ?thesis
  proof (cases "fl ?c < fl ?q")
    case True
    have "?c \<le> fl ?q" using q c True by (rule fl_of_float_ge)
    then have "?c * of_int H \<le> fl ?q * of_int H" using Hr by (simp only: mult_le_cancel_right_pos)
    then have "of_int W \<le> of_int H * fl ?q" using Hr by (simp add: mult.commute)
    with Wr have "fl (of_int W) \<le> fl (of_int H * fl ?q)" by (rule fl_mono)
    then have "of_int W \<le> fl (fl (of_int H) * fl ?q)" by (simp only: fW fH)
    then have "W \<le> py_int (fl (fl (of_int H) * fl ?q))" using W by (intro py_int_ge) simp_all
    moreover have "new_size ow oh W H = Inr (py_int (fl (fl (of_int H) * fl ?q)), H)"
      using True oh H by (simp add: new_size_def Let_def)
    ultimately show ?thesis using True by simp
  next
    case False
    then have le: "fl ?q \<le> fl ?c" by simp
    have "of_int W / fl ?c \<le> of_int W / fl ?q"
      using le r Wr by (simp add: divide_left_mono)
    moreover have "0 < of_int W / fl ?c" using t Wr by simp
    ultimately have "fl (of_int W / fl ?c) \<le> fl (of_int W / fl ?q)" by (rule fl_mono [rotated])
    with key have "of_int H \<le> fl (fl (of_int W) / fl ?q)" by (simp only: fW)
    then have "H \<le> py_int (fl (fl (of_int W) / fl ?q))" using H by (intro py_int_ge) simp_all
    moreover have "new_size ow oh W H = Inr (W, py_int (fl (fl (of_int W) / fl ?q)))"
      using False oh H r by (simp add: new_size_def Let_def)
    ultimately show ?thesis using False by simp
  qed
qed

lemma fl_400: "fl 400 = 400" by code_simp
lemma fl_800: "fl 800 = 800" by code_simp
lemma fl_1200: "fl 1200 = 1200" by code_simp
lemma fl_1600: "fl 1600 = 1600" by code_simp
lemma fl_300: "fl 300 = 300" by code_simp
lemma fl_600: "fl 600 = 600" by code_simp
lemma fl_500: "fl 500 = 500" by code_simp
lemma fl_1000: "fl 1000 = 1000" by code_simp
lemma fl_1500: "fl 1500 = 1500" by code_simp
lemma fl_2000: "fl 2000 = 2000" by code_simp
lemma fl_225: "fl 225 = 225" by code_simp
lemma fl_450: "fl 450 = 450" by code_simp
lemma fl_900: "fl 900 = 900" by code_simp

lemma key_400_500: "500 \<le> fl (400 / fl (400 / 500))" by code_simp
lemma key_800_1000: "1000 \<le> fl (800 / fl (800 / 1000))" by code_simp
lemma key_1200_1500: "1500 \<le> fl (1200 / fl (1200 / 1500))" by code_simp
lemma key_1600_2000: "2000 \<le> fl (1600 / fl (1600 / 2000))" by code_simp
lemma key_300_225: "225 \<le> fl (300 / fl (300 / 225))" by code_simp
lemma key_600_450: "450 \<le> fl (600 / fl (600 / 450))" by code_simp
lemma key_400_300: "300 \<le> fl (400 / fl (400 / 300))" by code_simp
lemma key_800_600: "600 \<le> fl (800 / fl (800 / 600))" by code_simp
lemma key_300_300: "300 \<le> fl (300 / fl (300 / 300))" by code_simp
lemma key_600_600: "600 \<le> fl (600 / fl (600 / 600))" by code_simp
lemma key_1200_900: "900 \<le> fl (1200 / fl (1200 / 900))" by code_simp

lemma sizes_lookup:
  "map_of sizes image_type = Some buckets \<Longrightarrow>
     buckets = [(''400'', (400, 500)), (''800'', (800, 1000)),
                (''1200'', (1200, 1500)), (''1600'', (1600, 2000))]
   \<or> buckets = [(''300'', (300, 225)), (''600'', (600, 450))]
   \<or> buckets = [(''400'', (400, 300)), (''800'', (800, 600))]
   \<or> buckets = [(''300'', (300, 300)), (''600'', (600, 600)), (''1200'', (1200, 900))]"
  by (simp add: sizes_def split: if_splits)

lemma sizes_targets:
  assumes "map_of sizes image_type = Some buckets" "(size_name, W, H) \<in> set buckets"
  shows "W = 400 \<and> H = 500 \<or> W = 800 \<and> H = 1000 \<or> W = 1200 \<and> H = 1500
       \<or> W = 1600 \<and> H = 2000 \<or> W = 300 \<and> H = 225 \<or> W = 600 \<and> H = 450
       \<or> W = 400 \<and> H = 300 \<or> W = 800 \<and> H = 600 \<or> W = 300 \<and> H = 300
       \<or> W = 600 \<and> H = 600 \<or> W = 1200 \<and> H = 900"
  using sizes_lookup [OF assms(1)]
proof (elim disjE)
  assume "buckets = [(''400'', (400, 500)), (''800'', (800, 1000)),
                (''1200'', (1200, 1500)), (''1600'', (1600, 2000))]"
  with assms(2) have "W = 400 \<and> H = 500 \<or> W = 800 \<and> H = 1000 \<or> W = 1200 \<and> H = 1500
       \<or> W = 1600 \<and> H = 2000"
    by simp (elim disjE conjE, simp_all)
  then show ?thesis by (elim disjE conjE, simp_all)
next
  assume "buckets = [(''300'', (300, 225)), (''600'', (600, 450))]"
  with assms(2) have "W = 300 \<and> H = 225 \<or> W = 600 \<and> H = 450"
    by simp (elim disjE conjE, simp_all)
  then show ?thesis by (elim disjE conjE, simp_all)
next
  assume "buckets = [(''400'', (400, 300)), (''800'', (800, 600))]"
  with assms(2) have "W = 400 \<and> H = 300 \<or> W = 800 \<and> H = 600"
    by simp (elim disjE conjE, simp_all)
  then show ?thesis by (elim disjE conjE, simp_all)
next
  assume "buckets = [(''300'', (300, 300)), (''600'', (600, 600)), (''1200'', (1200, 900))]"
  with assms(2) have "W = 300 \<and> H = 300 \<or> W = 600 \<and> H = 600 \<or> W = 1200 \<and> H = 900"
    by simp (elim disjE conjE, simp_all)
  then show ?thesis by (elim disjE conjE, simp_all)
qed


lemma sizes_rounding:
  assumes "map_of sizes image_type = Some buckets" "(size_name, W, H) \<in> set buckets"
  shows "0 < W \<and> 0 < H \<and> fl (of_int W) = of_int W \<and> fl (of_int H) = of_int H
         \<and> of_int H \<le> fl (of_int W / fl (of_int W / of_int H))"
  using sizes_targets [OF assms]
proof (elim disjE conjE)
  assume "W = 400" "H = 500"
  then show ?thesis using fl_400 fl_500 key_400_500 by simp
next
  assume "W = 800" "H = 1000"
  then show ?thesis using fl_800 fl_1000 key_800_1000 by simp
next
  assume "W = 1200" "H = 1500"
  then show ?thesis using fl_1200 fl_1500 key_1200_1500 by simp
next
  assume "W = 1600" "H = 2000"
  then show ?thesis using fl_1600 fl_2000 key_1600_2000 by simp
next
  assume "W = 300" "H = 225"
  then show ?thesis using fl_300 fl_225 key_300_225 by simp
next
  assume "W = 600" "H = 450"
  then show ?thesis using fl_600 fl_450 key_600_450 by simp
next
  assume "W = 400" "H = 300"
  then show ?thesis using fl_400 fl_300 key_400_300 by simp
next
  assume "W = 800" "H = 600"
  then show ?thesis using fl_800 fl_600 key_800_600 by simp
next
  assume "W = 300" "H = 300"
  then show ?thesis using fl_300 key_300_300 by simp
next
  assume "W = 600" "H = 600"
  then show ?thesis using fl_600 key_600_600 by simp
next
  assume "W = 1200" "H = 900"
  then show ?thesis using fl_1200 fl_900 key_1200_900 by simp
qed

lemma new_size_table:
  assumes "0 < ow" "0 < oh" "map_of sizes image_type = Some buckets"
    "(size_name, W, H) \<in> set buckets"
  shows "\<exists>nw nh. new_size ow oh W H = Inr (nw, nh) \<and> W \<le> nw \<and> H \<le> nh
           \<and> (if fl (of_int W / of_int H) < fl (of_int ow / of_int oh) then nh = H else nw = W)"
  using sizes_rounding [OF assms(3,4)] assms(1,2) by (intro new_size_covers) simp_all

text \<open>
  The bound rests on the targets of the table. With exact arithmetic it would hold for any
  target; the rounding of the two divisions can lose a pixel for others, as for a source
  and a target of 1 by 93.
\<close>

lemma new_size_rounding_example: "new_size 1 93 1 93 = Inr (1, 92)"
  by code_simp

lemma resize_size:
  "resize lanczos img w h = Inr r \<Longrightarrow> img_width r = w \<and> img_height r = h"
  by (auto simp: resize_def split: if_splits)

lemma resize_ok:
  "1 \<le> w \<Longrightarrow> 1 \<le> h \<Longrightarrow> \<exists>r. resize lanczos img w h = Inr r"
  by (simp add: resize_def)

lemma center_crop_size:
  "center_crop r nw nh W H = Inr v \<Longrightarrow> img_width r = nw \<Longrightarrow> img_height r = nh \<Longrightarrow>
     img_width v = W \<and> img_height v = H"
  by (auto simp: center_crop_def crop_def crop_box_def Let_def split: if_splits)

lemma center_crop_ok:
  "0 \<le> W \<Longrightarrow> 0 \<le> H \<Longrightarrow> \<exists>v. center_crop r nw nh W H = Inr v"
  by (simp add: center_crop_def crop_def crop_box_def Let_def)

lemma variant_size:
  assumes "variant lanczos img W H = Inr v"
  shows "img_width v = W \<and> img_height v = H"
proof -
  from assms obtain nw nh r where
    r: "resize lanczos img nw nh = Inr r" and c: "center_crop r nw nh W H = Inr v"
    by (auto simp: variant_def split: sum.splits prod.splits)
  from resize_size [OF r] c show ?thesis by (auto dest: center_crop_size)
qed

lemma variant_ok:
  assumes "0 < img_width img" "0 < img_height img" "map_of sizes image_type = Some buckets"
    "(size_name, W, H) \<in> set buckets"
  shows "\<exists>v. variant lanczos img W H = Inr v"
proof -
  from new_size_table [OF assms] obtain nw nh where
    n: "new_size (img_width img) (img_height img) W H = Inr (nw, nh)" and "W \<le> nw" "H \<le> nh"
    by blast
  moreover from sizes_rounding [OF assms(3,4)] have "0 < W" "0 < H" by simp_all
  ultimately have "1 \<le> nw" "1 \<le> nh" by simp_all
  then obtain r where r: "resize lanczos img nw nh = Inr r" using resize_ok by blast
  from \<open>0 < W\<close> \<open>0 < H\<close> obtain v where "center_crop r nw nh W H = Inr v"
    using center_crop_ok [of W H r nw nh] by auto
  with n r show ?thesis by (simp add: variant_def)
qed

subsection \<open>The files a run writes\<close>

text \<open>
  The paths of the variants differ from bucket to bucket and between the two formats, so
  the loop leaves, for every bucket, the two files it wrote for it.
\<close>

lemma files_save: "files (save fs p enc v) = (files fs)(p \<mapsto> ImageFile enc v)"
  by (simp add: save_def)

lemma dirs_save: "dirs (save fs p enc v) = dirs fs"
  by (simp add: save_def)

lemma jpg_path_neq_webp_path: "jpg_path d b n \<noteq> webp_path d b n'"
proof
  assume "jpg_path d b n = webp_path d b n'"
  then have "last (jpg_path d b n) = last (webp_path d b n')" by simp
  then show False by (simp add: jpg_path_def webp_path_def)
qed

lemma jpg_path_inj: "jpg_path d b n = jpg_path d b n' \<longleftrightarrow> n = n'"
  by (simp add: jpg_path_def)

lemma webp_path_inj: "webp_path d b n = webp_path d b n' \<longleftrightarrow> n = n'"
  by (simp add: webp_path_def)

lemma variants_loop_all:
  assumes "\<forall>b\<in>set bs. \<exists>v. variant lanczos img (fst (snd b)) (snd (snd b)) = Inr v"
    and "distinct (map fst bs)"
  shows "\<exists>fs'. variants_loop lanczos img d bn fs bs = (fs', Inr ()) \<and> dirs fs' = dirs fs
     \<and> (\<forall>b\<in>set bs. \<exists>v. variant lanczos img (fst (snd b)) (snd (snd b)) = Inr v
            \<and> files fs' (jpg_path d bn (fst b)) = Some (ImageFile JPEG_85 v)
            \<and> files fs' (webp_path d bn (fst b)) = Some (ImageFile WebP_80 v))
     \<and> (\<forall>p. (\<forall>b\<in>set bs. p \<noteq> jpg_path d bn (fst b) \<and> p \<noteq> webp_path d bn (fst b))
            \<longrightarrow> files fs' p = files fs p)"
  using assms
proof (induction bs arbitrary: fs)
  case Nil
  then show ?case by simp
next
  case (Cons b bs)
  obtain n W H where b: "b = (n, W, H)" by (cases b) auto
  from Cons.prems(1) b obtain v where v: "variant lanczos img W H = Inr v" by auto
  let ?fs1 = "save (save fs (jpg_path d bn n) JPEG_85 v) (webp_path d bn n) WebP_80 v"
  from Cons.prems have rest: "\<forall>b\<in>set bs. \<exists>v. variant lanczos img (fst (snd b)) (snd (snd b)) = Inr v"
    and dist: "distinct (map fst bs)" and fresh: "n \<notin> fst ` set bs"
    using b by auto
  from Cons.IH [OF rest dist, of ?fs1] obtain fs' where
    run: "variants_loop lanczos img d bn ?fs1 bs = (fs', Inr ())"
    and d: "dirs fs' = dirs ?fs1"
    and written: "\<forall>b\<in>set bs. \<exists>v. variant lanczos img (fst (snd b)) (snd (snd b)) = Inr v
            \<and> files fs' (jpg_path d bn (fst b)) = Some (ImageFile JPEG_85 v)
            \<and> files fs' (webp_path d bn (fst b)) = Some (ImageFile WebP_80 v)"
    and other: "\<forall>p. (\<forall>b\<in>set bs. p \<noteq> jpg_path d bn (fst b) \<and> p \<noteq> webp_path d bn (fst b))
            \<longrightarrow> files fs' p = files ?fs1 p"
    by blast
  have away: "\<forall>b\<in>set bs. jpg_path d bn n \<noteq> jpg_path d bn (fst b)
                \<and> jpg_path d bn n \<noteq> webp_path d bn (fst b)
                \<and> webp_path d bn n \<noteq> jpg_path d bn (fst b)
                \<and> webp_path d bn n \<noteq> webp_path d bn (fst b)"
    using fresh jpg_path_neq_webp_path [of d bn] jpg_path_neq_webp_path [of d bn, symmetric]
    by (auto simp: jpg_path_inj webp_path_inj)
  have j: "files fs' (jpg_path d bn n) = Some (ImageFile JPEG_85 v)"
    using other away jpg_path_neq_webp_path [of d bn n n] by (simp add: files_save)
  have w: "files fs' (webp_path d bn n) = Some (ImageFile WebP_80 v)"
    using other away by (simp add: files_save)
  have "variants_loop lanczos img d bn fs (b # bs) = (fs', Inr ())"
    using run v b by simp
  moreover have "dirs fs' = dirs fs" using d by (simp add: dirs_save)
  moreover have "\<forall>c\<in>set (b # bs). \<exists>v. variant lanczos img (fst (snd c)) (snd (snd c)) = Inr v
            \<and> files fs' (jpg_path d bn (fst c)) = Some (ImageFile JPEG_85 v)
            \<and> files fs' (webp_path d bn (fst c)) = Some (ImageFile WebP_80 v)"
    using written j w v b by simp
  moreover have "\<forall>p. (\<forall>c\<in>set (b # bs). p \<noteq> jpg_path d bn (fst c) \<and> p \<noteq> webp_path d bn (fst c))
            \<longrightarrow> files fs' p = files fs p"
    using other b by (simp add: files_save)
  ultimately show ?case by blast
qed

lemma sizes_distinct: "map_of sizes image_type = Some buckets \<Longrightarrow> distinct (map fst buckets)"
  by (drule sizes_lookup) (elim disjE, simp_all)

lemma files_makedirs: "files (makedirs fs p) = files fs"
  by (simp add: makedirs_def)

lemma image_open_makedirs:
  "files fs p = Some (ImageFile enc src) \<Longrightarrow> image_open (makedirs fs d) p = Inr src"
  by (simp add: image_open_def files_makedirs)

lemma new_size_1000_800_hero: "new_size 1000 800 1600 2000 = Inr (2500, 2000)"
  by code_simp

lemma center_crop_pixels:
  assumes "width \<le> img_width resized" "height \<le> img_height resized" "0 < width" "0 < height"
  shows "\<exists>v. center_crop resized (img_width resized) (img_height resized) width height = Inr v
     \<and> img_width v = width \<and> img_height v = height
     \<and> (\<forall>x y. 0 \<le> x \<and> x < width \<and> 0 \<le> y \<and> y < height \<longrightarrow>
           img_data v x y = img_data resized (x + (img_width resized - width) div 2)
                                             (y + (img_height resized - height) div 2))"
proof (cases "img_width resized \<noteq> width \<or> img_height resized \<noteq> height")
  case True
  let ?l = "(img_width resized - width) div 2"
  let ?t = "(img_height resized - height) div 2"
  have l: "0 \<le> ?l" "?l \<le> img_width resized - width" using assms(1) by simp_all
  have t: "0 \<le> ?t" "?t \<le> img_height resized - height" using assms(2) by simp_all
  have "center_crop resized (img_width resized) (img_height resized) width height =
          crop resized (?l, ?t, ?l + width, ?t + height)"
    using True by (simp add: center_crop_def crop_box_def Let_def)
  then show ?thesis using assms(3,4) l t by (simp add: crop_def)
next
  case False
  then show ?thesis by (simp add: center_crop_def)
qed

lemma create_responsive_images_ok:
  assumes src: "files fs input_path = Some (ImageFile enc src)"
    and pos: "0 < img_width src" "0 < img_height src"
    and prof: "map_of sizes image_type = Some buckets"
  shows "\<exists>fs' img. create_responsive_images to_rgb lanczos fs input_path recipe_name image_type
            = (fs', Inr ())
     \<and> (\<forall>b\<in>set buckets. \<exists>v. variant lanczos img (fst (snd b)) (snd (snd b)) = Inr v
            \<and> files fs' (jpg_path (''images/recipes/'' @ recipe_name) (stem input_path) (fst b))
                 = Some (ImageFile JPEG_85 v)
            \<and> files fs' (webp_path (''images/recipes/'' @ recipe_name) (stem input_path) (fst b))
                 = Some (ImageFile WebP_80 v))"
proof -
  define img where
    "img = (if img_mode src \<in> {''RGBA'', ''LA'', ''P''} then convert_rgb to_rgb src else src)"
  let ?dir = "''images/recipes/'' @ recipe_name"
  have dims: "img_width img = img_width src" "img_height img = img_height src"
    by (simp_all add: img_def convert_rgb_def)
  have all: "\<forall>b\<in>set buckets. \<exists>v. variant lanczos img (fst (snd b)) (snd (snd b)) = Inr v"
  proof
    fix b assume "b \<in> set buckets"
    then have "(fst b, fst (snd b), snd (snd b)) \<in> set buckets" by simp
    with pos prof show "\<exists>v. variant lanczos img (fst (snd b)) (snd (snd b)) = Inr v"
      using variant_ok [of img image_type buckets "fst b" "fst (snd b)" "snd (snd b)" lanczos]
      by (simp only: dims)
  qed
  from variants_loop_all [OF all sizes_distinct [OF prof], of ?dir "stem input_path" "makedirs fs ?dir"]
  obtain fs' where
    run: "variants_loop lanczos img ?dir (stem input_path) (makedirs fs ?dir) buckets = (fs', Inr ())"
    and written: "\<forall>b\<in>set buckets. \<exists>v. variant lanczos img (fst (snd b)) (snd (snd b)) = Inr v
            \<and> files fs' (jpg_path ?dir (stem input_path) (fst b)) = Some (ImageFile JPEG_85 v)
            \<and> files fs' (webp_path ?dir (stem input_path) (fst b)) = Some (ImageFile WebP_80 v)"
    by blast
  have "create_responsive_images to_rgb lanczos fs input_path recipe_name image_type =
          variants_loop lanczos img ?dir (stem input_path) (makedirs fs ?dir) buckets"
    by (simp add: create_responsive_images_def Let_def image_open_makedirs [OF src] prof img_def)
  with run written show ?thesis by auto
qed





subsection \<open>The claims about the sizes\<close>



text \<open>
  C1. For every source image with positive dimensions and every profile of the size table,
  the run succeeds, and for every bucket of the profile the JPEG file and the WebP file of
  that bucket hold one and the same variant, whose pixel dimensions are exactly the
  target \<open>(width, height)\<close> of the bucket.
\<close>

theorem variants_have_target_size:
  assumes "files fs input_path = Some (ImageFile enc src)"
    and "0 < img_width src" "0 < img_height src"
    and "map_of sizes image_type = Some buckets" "(size_name, width, height) \<in> set buckets"
  shows "\<exists>fs' v. create_responsive_images to_rgb lanczos fs input_path recipe_name image_type
                   = (fs', Inr ())
     \<and> files fs' (jpg_path (''images/recipes/'' @ recipe_name) (stem input_path) size_name)
           = Some (ImageFile JPEG_85 v)
     \<and> files fs' (webp_path (''images/recipes/'' @ recipe_name) (stem input_path) size_name)
           = Some (ImageFile WebP_80 v)
     \<and> img_width v = width \<and> img_height v = height"
proof -
  from create_responsive_images_ok [OF assms(1-4), of to_rgb lanczos recipe_name]
  obtain fs' img where
    run: "create_responsive_images to_rgb lanczos fs input_path recipe_name image_type = (fs', Inr ())"
    and written: "\<forall>b\<in>set buckets. \<exists>v. variant lanczos img (fst (snd b)) (snd (snd b)) = Inr v
            \<and> files fs' (jpg_path (''images/recipes/'' @ recipe_name) (stem input_path) (fst b))
                 = Some (ImageFile JPEG_85 v)
            \<and> files fs' (webp_path (''images/recipes/'' @ recipe_name) (stem input_path) (fst b))
                 = Some (ImageFile WebP_80 v)"
    by blast
  from written assms(5) obtain v where
    v: "variant lanczos img width height = Inr v"
    and j: "files fs' (jpg_path (''images/recipes/'' @ recipe_name) (stem input_path) size_name)
              = Some (ImageFile JPEG_85 v)"
    and w: "files fs' (webp_path (''images/recipes/'' @ recipe_name) (stem input_path) size_name)
              = Some (ImageFile WebP_80 v)"
    by fastforce
  from variant_size [OF v] run j w show ?thesis by blast
qed

theorem variants_have_target_size_witness:
  "files \<lparr>dirs = {}, files = [''photo.jpg'' \<mapsto> ImageFile JPEG_85
            \<lparr>img_width = 1000, img_height = 800, img_mode = ''RGB'', img_data = (\<lambda>x y. 0 :: nat)\<rparr>]\<rparr>
      ''photo.jpg''
     = Some (ImageFile JPEG_85
         \<lparr>img_width = 1000, img_height = 800, img_mode = ''RGB'', img_data = (\<lambda>x y. 0 :: nat)\<rparr>)
   \<and> map_of sizes ''hero'' = Some [(''400'', (400, 500)), (''800'', (800, 1000)),
                                    (''1200'', (1200, 1500)), (''1600'', (1600, 2000))]
   \<and> (''1600'', 1600, 2000) \<in> set [(''400'', (400, 500)), (''800'', (800, 1000)),
                                    (''1200'', (1200, 1500)), (''1600'', (1600, 2000 :: int))]
   \<and> (\<exists>fs' v. create_responsive_images (\<lambda>i x y. 0) (\<lambda>i w h x y. 0)
                  \<lparr>dirs = {}, files = [''photo.jpg'' \<mapsto> ImageFile JPEG_85
                     \<lparr>img_width = 1000, img_height = 800, img_mode = ''RGB'',
                        img_data = (\<lambda>x y. 0 :: nat)\<rparr>]\<rparr>
                  ''photo.jpg'' ''cake'' ''hero'' = (fs', Inr ())
          \<and> files fs' (jpg_path ''images/recipes/cake'' (stem ''photo.jpg'') ''1600'')
                = Some (ImageFile JPEG_85 v)
          \<and> files fs' (webp_path ''images/recipes/cake'' (stem ''photo.jpg'') ''1600'')
                = Some (ImageFile WebP_80 v)
          \<and> img_width v = 1600 \<and> img_height v = 2000)"
proof -
  let ?img = "\<lparr>img_width = 1000, img_height = 800, img_mode = ''RGB'',
               img_data = (\<lambda>x y. 0 :: nat)\<rparr>"
  let ?fs = "\<lparr>dirs = {}, files = [''photo.jpg'' \<mapsto> ImageFile JPEG_85 ?img]\<rparr>"
  have f: "files ?fs ''photo.jpg'' = Some (ImageFile JPEG_85 ?img)" by simp
  have s: "map_of sizes ''hero'' = Some [(''400'', (400, 500)), (''800'', (800, 1000)),
                                    (''1200'', (1200, 1500)), (''1600'', (1600, 2000))]"
    by (simp add: sizes_def)
  have m: "(''1600'', 1600, 2000) \<in> set [(''400'', (400, 500)), (''800'', (800, 1000)),
                                    (''1200'', (1200, 1500)), (''1600'', (1600, 2000 :: int))]"
    by simp
  have "\<exists>fs' v. create_responsive_images (\<lambda>i x y. 0) (\<lambda>i w h x y. 0) ?fs
                  ''photo.jpg'' ''cake'' ''hero'' = (fs', Inr ())
          \<and> files fs' (jpg_path (''images/recipes/'' @ ''cake'') (stem ''photo.jpg'') ''1600'')
                = Some (ImageFile JPEG_85 v)
          \<and> files fs' (webp_path (''images/recipes/'' @ ''cake'') (stem ''photo.jpg'') ''1600'')
                = Some (ImageFile WebP_80 v)
          \<and> img_width v = 1600 \<and> img_height v = 2000"
    by (rule variants_have_target_size [OF f _ _ s m]) simp_all
  then have "\<exists>fs' v. create_responsive_images (\<lambda>i x y. 0) (\<lambda>i w h x y. 0) ?fs
                  ''photo.jpg'' ''cake'' ''hero'' = (fs', Inr ())
          \<and> files fs' (jpg_path ''images/recipes/cake'' (stem ''photo.jpg'') ''1600'')
                = Some (ImageFile JPEG_85 v)
          \<and> files fs' (webp_path ''images/recipes/cake'' (stem ''photo.jpg'') ''1600'')
                = Some (ImageFile WebP_80 v)
          \<and> img_width v = 1600 \<and> img_height v = 2000"
    by (simp only: append.simps)
  with f s m show ?thesis by (intro conjI)
qed

text \<open>
  C3. For a resized image at least as large as the target, the crop step returns an image
  of exactly the target size whose pixel \<open>(x, y)\<close> is pixel \<open>(x + left, y + top)\<close> of the resized
  image, with \<open>left = (scaledW - W) div 2\<close> and \<open>top = (scaledH - H) div 2\<close> (\<open>div\<close> on
  integers is the floor division of Python's \<open>//\<close>); when the sizes differ it is the library's
  crop to the box \<open>(left, top, left + W, top + H)\<close>, and when they are equal the image is
  left as it is, which is that box too. For a 1000 by 800 source and the hero bucket 1600
  by 2000 the resized size is 2500 by 2000, the box starts at \<open>left = 450\<close>, and the variant
  is exactly 1600 by 2000.
\<close>

theorem center_crop_is_centred_box:
  "(width \<le> img_width resized \<and> height \<le> img_height resized \<and> 0 < width \<and> 0 < height \<longrightarrow>
      (\<exists>v. center_crop resized (img_width resized) (img_height resized) width height = Inr v
         \<and> img_width v = width \<and> img_height v = height
         \<and> (\<forall>x y. 0 \<le> x \<and> x < width \<and> 0 \<le> y \<and> y < height \<longrightarrow>
               img_data v x y = img_data resized (x + (img_width resized - width) div 2)
                                                 (y + (img_height resized - height) div 2))
         \<and> (img_width resized \<noteq> width \<or> img_height resized \<noteq> height \<longrightarrow>
               crop resized ((img_width resized - width) div 2,
                             (img_height resized - height) div 2,
                             (img_width resized - width) div 2 + width,
                             (img_height resized - height) div 2 + height) = Inr v)))
   \<and> new_size 1000 800 1600 2000 = Inr (2500, 2000)
   \<and> crop_box 2500 2000 1600 2000 = (450, 0, 2050, 2000)
   \<and> (img_width img = 1000 \<and> img_height img = 800 \<longrightarrow>
        (\<exists>v. variant lanczos img 1600 2000 = Inr v \<and> img_width v = 1600 \<and> img_height v = 2000))"
proof (intro conjI impI)
  assume a: "width \<le> img_width resized \<and> height \<le> img_height resized \<and> 0 < width \<and> 0 < height"
  then obtain v where
    v: "center_crop resized (img_width resized) (img_height resized) width height = Inr v"
    and rest: "img_width v = width" "img_height v = height"
      "\<forall>x y. 0 \<le> x \<and> x < width \<and> 0 \<le> y \<and> y < height \<longrightarrow>
               img_data v x y = img_data resized (x + (img_width resized - width) div 2)
                                                 (y + (img_height resized - height) div 2)"
    using center_crop_pixels [of width resized height] by blast
  have "img_width resized \<noteq> width \<or> img_height resized \<noteq> height \<longrightarrow>
               crop resized ((img_width resized - width) div 2,
                             (img_height resized - height) div 2,
                             (img_width resized - width) div 2 + width,
                             (img_height resized - height) div 2 + height) = Inr v"
    using v by (auto simp: center_crop_def crop_box_def Let_def)
  with v rest show "\<exists>v. center_crop resized (img_width resized) (img_height resized) width height = Inr v
         \<and> img_width v = width \<and> img_height v = height
         \<and> (\<forall>x y. 0 \<le> x \<and> x < width \<and> 0 \<le> y \<and> y < height \<longrightarrow>
               img_data v x y = img_data resized (x + (img_width resized - width) div 2)
                                                 (y + (img_height resized - height) div 2))
         \<and> (img_width resized \<noteq> width \<or> img_height resized \<noteq> height \<longrightarrow>
               crop resized ((img_width resized - width) div 2,
                             (img_height resized - height) div 2,
                             (img_width resized - width) div 2 + width,
                             (img_height resized - height) div 2 + height) = Inr v)"
    by blast
next
  show "new_size 1000 800 1600 2000 = Inr (2500, 2000)" by (rule new_size_1000_800_hero)
next
  show "crop_box 2500 2000 1600 2000 = (450, 0, 2050, 2000)"
    by (simp add: crop_box_def Let_def)
next
  assume "img_width img = 1000 \<and> img_height img = 800"
  then have n: "new_size (img_width img) (img_height img) 1600 2000 = Inr (2500, 2000)"
    by (simp add: new_size_1000_800_hero)
  obtain r where r: "resize lanczos img 2500 2000 = Inr r"
    using resize_ok [of 2500 2000 lanczos img] by auto
  obtain v where c: "center_crop r 2500 2000 1600 2000 = Inr v"
    using center_crop_ok [of 1600 2000 r 2500 2000] by auto
  from n r c have "variant lanczos img 1600 2000 = Inr v" by (simp add: variant_def)
  with variant_size [of lanczos img 1600 2000 v]
  show "\<exists>v. variant lanczos img 1600 2000 = Inr v \<and> img_width v = 1600 \<and> img_height v = 2000"
    by blast
qed

theorem center_crop_is_centred_box_witness:
  "(3::int) \<le> 5 \<and> (2::int) \<le> 4
   \<and> (\<exists>v. center_crop \<lparr>img_width = 5, img_height = 4, img_mode = ''RGB'',
                         img_data = (\<lambda>x y. x + 10 * y)\<rparr> 5 4 3 2 = Inr v
         \<and> img_width v = 3 \<and> img_height v = 2 \<and> img_data v 0 0 = 11 \<and> img_data v 2 1 = 23)
   \<and> (\<exists>v. variant (\<lambda>i w h x y. 0 :: nat)
              \<lparr>img_width = 1000, img_height = 800, img_mode = ''RGB'', img_data = (\<lambda>x y. 0)\<rparr>
              1600 2000 = Inr v
         \<and> img_width v = 1600 \<and> img_height v = 2000)"
proof -
  let ?r = "\<lparr>img_width = 5, img_height = 4, img_mode = ''RGB'',
             img_data = (\<lambda>x y. x + 10 * y :: int)\<rparr>"
  let ?img = "\<lparr>img_width = 1000, img_height = 800, img_mode = ''RGB'',
               img_data = (\<lambda>x y. 0 :: nat)\<rparr>"
  note inst = center_crop_is_centred_box [of 3 ?r 2 ?img "\<lambda>i w h x y. 0"]
  from inst obtain v where
    v: "center_crop ?r 5 4 3 2 = Inr v" "img_width v = 3" "img_height v = 2"
    and px: "\<forall>x y. 0 \<le> x \<and> x < 3 \<and> 0 \<le> y \<and> y < 2 \<longrightarrow>
               img_data v x y = img_data ?r (x + (img_width ?r - 3) div 2)
                                            (y + (img_height ?r - 2) div 2)"
    by auto
  from px have "img_data v 0 0 = 11" "img_data v 2 1 = 23" by simp_all
  with v have a: "\<exists>v. center_crop ?r 5 4 3 2 = Inr v
         \<and> img_width v = 3 \<and> img_height v = 2 \<and> img_data v 0 0 = 11 \<and> img_data v 2 1 = 23"
    by blast
  from inst have b: "\<exists>v. variant (\<lambda>i w h x y. 0 :: nat) ?img 1600 2000 = Inr v
         \<and> img_width v = 1600 \<and> img_height v = 2000"
    by simp
  from a b show ?thesis by simp
qed




subsection \<open>The markup fragment\<close>

lemma srcset_loop_map:
  "srcset_loop recipe_name base_name (ws, js) szs =
     (ws @ map (webp_entry recipe_name base_name) szs, js @ map (jpg_entry recipe_name base_name) szs)"
  by (induction szs arbitrary: ws js) simp_all

lemma sizes_map_lookup:
  "map_of sizes_map image_type = Some size_names \<Longrightarrow>
     image_type = ''hero'' \<and> size_names = [''400'', ''800'', ''1200'', ''1600'']
   \<or> image_type = ''card'' \<and> size_names = [''300'', ''600'']
   \<or> image_type = ''process'' \<and> size_names = [''400'', ''800'']
   \<or> image_type = ''gallery'' \<and> size_names = [''300'', ''600'', ''1200'']"
  by (simp add: sizes_map_def split: if_splits)

lemma sizes_map_matches_sizes:
  assumes "map_of sizes_map image_type = Some size_names"
  shows "\<exists>buckets. map_of sizes image_type = Some buckets \<and> size_names = map fst buckets
           \<and> (\<forall>b\<in>set buckets. fst (snd b) \<le> fst (snd (last buckets))
                                \<and> snd (snd b) \<le> snd (snd (last buckets)))"
  using sizes_map_lookup [OF assms]
proof (elim disjE conjE)
  assume "image_type = ''hero''" "size_names = [''400'', ''800'', ''1200'', ''1600'']"
  then show ?thesis by (simp add: sizes_def)
next
  assume "image_type = ''card''" "size_names = [''300'', ''600'']"
  then show ?thesis by (simp add: sizes_def)
next
  assume "image_type = ''process''" "size_names = [''400'', ''800'']"
  then show ?thesis by (simp add: sizes_def)
next
  assume "image_type = ''gallery''" "size_names = [''300'', ''600'', ''1200'']"
  then show ?thesis by (simp add: sizes_def)
qed

lemma sizes_map_nonempty: "map_of sizes_map image_type = Some size_names \<Longrightarrow> size_names \<noteq> []"
  by (drule sizes_map_lookup) (elim disjE conjE, simp_all)

text \<open>
  C9. For every profile, the markup fragment lists one WebP entry and one JPEG entry per
  size name, both in the order of the profile's list, and the fallback \<open>src\<close> attribute
  names the JPEG of the last size name. The size names of a profile are the names of its
  buckets in the size table, in the same order, and the last bucket is the largest: no
  bucket of the profile is wider or higher.
\<close>

theorem picture_lists_sizes_in_profile_order:
  assumes "map_of sizes_map image_type = Some size_names"
  shows \<open>generate_picture_element recipe_name base_name image_type alt_text width height loading
            fetchpriority =
         Inr (''<picture>\<newline>'' @
              ''    <source\<newline>'' @
              ''        srcset="'' @ join '', '' (map (webp_entry recipe_name base_name) size_names)
                 @ ''"\<newline>'' @
              ''        type="image/webp">\<newline>'' @
              ''    <img\<newline>'' @
              ''        src="../images/recipes/'' @ recipe_name @ ''/'' @ base_name @ ''-''
                 @ last size_names @ ''.jpg"\<newline>'' @
              ''        srcset="'' @ join '', '' (map (jpg_entry recipe_name base_name) size_names)
                 @ ''"\<newline>'' @
              ''        sizes="'' @ sizes_attr image_type @ ''"\<newline>'' @
              ''        width="'' @ str_int width @ ''"\<newline>'' @
              ''        height="'' @ str_int height @ ''"\<newline>'' @
              ''        alt="'' @ alt_text @ ''"\<newline>'' @
              ''        loading="'' @ loading @ ''"'' @
              (case fetchpriority of
                 None \<Rightarrow> []
               | Some fp \<Rightarrow> if fp = [] then [] else ''\<newline>        fetchpriority="'' @ fp @ ''"'') @
              '' />\<newline></picture>'')
       \<and> (\<exists>buckets. map_of sizes image_type = Some buckets \<and> size_names = map fst buckets
             \<and> (\<forall>b\<in>set buckets. fst (snd b) \<le> fst (snd (last buckets))
                                  \<and> snd (snd b) \<le> snd (snd (last buckets))))\<close>
proof
  show \<open>\<exists>buckets. map_of sizes image_type = Some buckets \<and> size_names = map fst buckets
             \<and> (\<forall>b\<in>set buckets. fst (snd b) \<le> fst (snd (last buckets))
                                  \<and> snd (snd b) \<le> snd (snd (last buckets)))\<close>
    by (rule sizes_map_matches_sizes [OF assms])
next
  have ne: "size_names \<noteq> []" by (rule sizes_map_nonempty [OF assms])
  show \<open>generate_picture_element recipe_name base_name image_type alt_text width height loading
            fetchpriority =
         Inr (''<picture>\<newline>'' @
              ''    <source\<newline>'' @
              ''        srcset="'' @ join '', '' (map (webp_entry recipe_name base_name) size_names)
                 @ ''"\<newline>'' @
              ''        type="image/webp">\<newline>'' @
              ''    <img\<newline>'' @
              ''        src="../images/recipes/'' @ recipe_name @ ''/'' @ base_name @ ''-''
                 @ last size_names @ ''.jpg"\<newline>'' @
              ''        srcset="'' @ join '', '' (map (jpg_entry recipe_name base_name) size_names)
                 @ ''"\<newline>'' @
              ''        sizes="'' @ sizes_attr image_type @ ''"\<newline>'' @
              ''        width="'' @ str_int width @ ''"\<newline>'' @
              ''        height="'' @ str_int height @ ''"\<newline>'' @
              ''        alt="'' @ alt_text @ ''"\<newline>'' @
              ''        loading="'' @ loading @ ''"'' @
              (case fetchpriority of
                 None \<Rightarrow> []
               | Some fp \<Rightarrow> if fp = [] then [] else ''\<newline>        fetchpriority="'' @ fp @ ''"'') @
              '' />\<newline></picture>'')\<close>
    using assms ne
    by (cases fetchpriority) (simp_all add: generate_picture_element_def srcset_loop_map Let_def)
qed

theorem picture_lists_sizes_in_profile_order_witness:
  \<open>map_of sizes_map ''card'' = Some [''300'', ''600'']
   \<and> generate_picture_element ''cake'' ''photo'' ''card'' ''A cake'' 600 450 ''lazy'' None =
       Inr (''<picture>\<newline>'' @
            ''    <source\<newline>'' @
            ''        srcset="../images/recipes/cake/photo-300.webp 300w, '' @
                          ''../images/recipes/cake/photo-600.webp 600w"\<newline>'' @
            ''        type="image/webp">\<newline>'' @
            ''    <img\<newline>'' @
            ''        src="../images/recipes/cake/photo-600.jpg"\<newline>'' @
            ''        srcset="../images/recipes/cake/photo-300.jpg 300w, '' @
                          ''../images/recipes/cake/photo-600.jpg 600w"\<newline>'' @
            ''        sizes="(max-width: 768px) 50vw, 300px"\<newline>'' @
            ''        width="600"\<newline>'' @
            ''        height="450"\<newline>'' @
            ''        alt="A cake"\<newline>'' @
            ''        loading="lazy" />\<newline></picture>'')\<close>
proof -
  have s: "map_of sizes_map ''card'' = Some [''300'', ''600'']" by (simp add: sizes_map_def)
  have w: "str_int 600 = ''600''" by code_simp
  have h: "str_int 450 = ''450''" by code_simp
  from picture_lists_sizes_in_profile_order [OF s, of "''cake''" "''photo''" "''A cake''" 600 450 "''lazy''" None]
  show ?thesis
    using s by (simp add: webp_entry_def jpg_entry_def sizes_attr_def w h)
qed

section \<open>Properties of the format converter\<close>

text \<open>
  The name of an output is never the name of a source, so a conversion never changes a
  source, and it never lowers the modification time of an output that made some source up
  to date. \<open>main_loop_run\<close> carries this through the loop.
\<close>

lemma not_is_jpg_webp_name: "\<not> is_jpg (webp_name f)"
  by (simp add: is_jpg_def endswith_def webp_name_def lower_char_def)

lemma lookup_write_entry:
  "lookup (write_entry st k e) k' = (if k' = k then Some e else lookup st k')"
  by (simp add: lookup_def write_entry_def AList.update_conv')

lemma jpg_files_write_entry:
  "\<not> is_jpg k \<Longrightarrow> jpg_files (write_entry st k e) = jpg_files st"
  by (simp add: jpg_files_def listdir_def write_entry_def AList.update_keys)

lemma dir_exists_write_entry: "dir_exists (write_entry st k e) = dir_exists st"
  by (simp add: write_entry_def)

text \<open>What a conversion leaves: the directory as it was, or with the output written.\<close>

lemma convert_jpg_to_webp_cases:
  assumes "convert_jpg_to_webp w st f wp = (st1, lines)"
  shows "(\<exists>p e. lines = [ErrorConverting p e])
       \<or> (\<exists>e1. st1 = write_entry st wp e1 \<and> ent_mtime e1 = write_time w f
                 \<and> (\<exists>a b c. lines = [Converted f wp, Sizes a b c]))"
  using assms
  by (auto simp: convert_jpg_to_webp_def try_convert_def Let_def
           split: sum.splits if_splits prod.splits)

lemma main_loop_extends:
  "main_loop w (st, n, out) fs = (st', n', out', exc) \<Longrightarrow> \<exists>more. out' = out @ more"
proof (induction fs arbitrary: st n out)
  case Nil
  then show ?case by simp
next
  case (Cons f fs)
  show ?case
  proof (cases "up_to_date st f (webp_name f)")
    case (Inl e)
    with Cons.prems show ?thesis by (simp add: Let_def)
  next
    case (Inr b)
    show ?thesis
    proof (cases b)
      case True
      with Inr Cons.prems have "main_loop w (st, n, out @ [Skipping f]) fs = (st', n', out', exc)"
        by (simp add: Let_def)
      from Cons.IH [OF this] show ?thesis by auto
    next
      case False
      obtain st1 lines where c: "convert_jpg_to_webp w st f (webp_name f) = (st1, lines)"
        by (cases "convert_jpg_to_webp w st f (webp_name f)") auto
      with False Inr Cons.prems have "main_loop w (st1, n + 1, out @ lines) fs = (st', n', out', exc)"
        by (simp add: Let_def)
      from Cons.IH [OF this] show ?thesis by auto
    qed
  qed
qed

lemma up_to_date_listed:
  "lookup st f = Some src \<Longrightarrow>
     up_to_date st f wp = Inr (\<exists>dst. lookup st wp = Some dst \<and> ent_mtime src < ent_mtime dst)"
  by (simp add: up_to_date_def getmtime_def split: option.splits)

lemma main_loop_all_up_to_date:
  assumes "\<forall>f\<in>set fs. \<exists>src dst. lookup st f = Some src \<and> lookup st (webp_name f) = Some dst
                          \<and> ent_mtime src < ent_mtime dst"
  shows "main_loop w (st, n, out) fs = (st, n, out @ map Skipping fs, None)"
  using assms
proof (induction fs arbitrary: out)
  case Nil
  then show ?case by simp
next
  case (Cons f fs)
  then obtain src dst where "lookup st f = Some src" "lookup st (webp_name f) = Some dst"
    "ent_mtime src < ent_mtime dst" by auto
  then have "up_to_date st f (webp_name f) = Inr True" by (simp add: up_to_date_listed)
  moreover have "main_loop w (st, n, out @ [Skipping f]) fs
                   = (st, n, (out @ [Skipping f]) @ map Skipping fs, None)"
    using Cons.prems by (intro Cons.IH) simp
  ultimately show ?case by (simp add: Let_def)
qed

lemma newer_after_write:
  assumes g: "is_jpg g"
    and old: "\<exists>src dst. lookup st g = Some src \<and> lookup st (webp_name g) = Some dst
                \<and> ent_mtime src < ent_mtime dst"
    and f: "lookup st f = Some fsrc" "ent_mtime fsrc < ent_mtime e1"
    and stale: "\<not> (\<exists>dst. lookup st (webp_name f) = Some dst \<and> ent_mtime fsrc < ent_mtime dst)"
  shows "\<exists>src dst. lookup (write_entry st (webp_name f) e1) g = Some src
           \<and> lookup (write_entry st (webp_name f) e1) (webp_name g) = Some dst
           \<and> ent_mtime src < ent_mtime dst"
proof -
  from old obtain src dst where s: "lookup st g = Some src"
    and d: "lookup st (webp_name g) = Some dst" and lt: "ent_mtime src < ent_mtime dst" by blast
  have ne: "g \<noteq> webp_name f" using g not_is_jpg_webp_name [of f] by auto
  then have s1: "lookup (write_entry st (webp_name f) e1) g = Some src"
    using s by (simp add: lookup_write_entry)
  show ?thesis
  proof (cases "webp_name g = webp_name f")
    case True
    with d stale have "ent_mtime dst \<le> ent_mtime fsrc" by auto
    with lt f(2) have "ent_mtime src < ent_mtime e1" by simp
    moreover have "lookup (write_entry st (webp_name f) e1) (webp_name g) = Some e1"
      using True by (simp add: lookup_write_entry)
    ultimately show ?thesis using s1 by blast
  next
    case False
    then have "lookup (write_entry st (webp_name f) e1) (webp_name g) = Some dst"
      using d by (simp add: lookup_write_entry)
    with s1 lt show ?thesis by blast
  qed
qed

lemma main_loop_run:
  assumes run: "main_loop w (st, n, out) fs = (st', n', out', exc)"
    and jpg: "\<forall>f\<in>set fs. is_jpg f"
    and listed: "\<forall>f\<in>set fs. \<exists>src. lookup st f = Some src"
    and clock: "\<forall>f\<in>set fs. \<forall>src. Converted f (webp_name f) \<in> set out' \<longrightarrow>
                  lookup st f = Some src \<longrightarrow> ent_mtime src < write_time w f"
    and ok: "\<forall>p e. ErrorConverting p e \<notin> set out'"
  shows "exc = None \<and> jpg_files st' = jpg_files st \<and> dir_exists st' = dir_exists st
     \<and> (\<forall>g. is_jpg g \<longrightarrow> lookup st' g = lookup st g)
     \<and> (\<forall>g. is_jpg g \<longrightarrow>
           (\<exists>src dst. lookup st g = Some src \<and> lookup st (webp_name g) = Some dst
                       \<and> ent_mtime src < ent_mtime dst) \<longrightarrow>
           (\<exists>src dst. lookup st' g = Some src \<and> lookup st' (webp_name g) = Some dst
                       \<and> ent_mtime src < ent_mtime dst))
     \<and> (\<forall>f\<in>set fs. \<exists>src dst. lookup st' f = Some src \<and> lookup st' (webp_name f) = Some dst
                       \<and> ent_mtime src < ent_mtime dst)"
  using run jpg listed clock
proof (induction fs arbitrary: st n out)
  case Nil
  then show ?case by simp
next
  case (Cons f fs)
  from Cons.prems(3) obtain fsrc where fsrc: "lookup st f = Some fsrc" by auto
  have fj: "is_jpg f" using Cons.prems(2) by simp
  let ?b = "\<exists>dst. lookup st (webp_name f) = Some dst \<and> ent_mtime fsrc < ent_mtime dst"
  have u: "up_to_date st f (webp_name f) = Inr ?b" using fsrc by (rule up_to_date_listed)
  show ?case
  proof (cases ?b)
    case True
    with u Cons.prems(1) have r: "main_loop w (st, n, out @ [Skipping f]) fs = (st', n', out', exc)"
      by (simp add: Let_def)
    have ih: "exc = None \<and> jpg_files st' = jpg_files st \<and> dir_exists st' = dir_exists st
     \<and> (\<forall>g. is_jpg g \<longrightarrow> lookup st' g = lookup st g)
     \<and> (\<forall>g. is_jpg g \<longrightarrow>
           (\<exists>src dst. lookup st g = Some src \<and> lookup st (webp_name g) = Some dst
                       \<and> ent_mtime src < ent_mtime dst) \<longrightarrow>
           (\<exists>src dst. lookup st' g = Some src \<and> lookup st' (webp_name g) = Some dst
                       \<and> ent_mtime src < ent_mtime dst))
     \<and> (\<forall>f\<in>set fs. \<exists>src dst. lookup st' f = Some src \<and> lookup st' (webp_name f) = Some dst
                       \<and> ent_mtime src < ent_mtime dst)"
      using Cons.prems(2,3,4) by (intro Cons.IH [OF r]) simp_all
    have "\<exists>src dst. lookup st f = Some src \<and> lookup st (webp_name f) = Some dst
                       \<and> ent_mtime src < ent_mtime dst"
      using True fsrc by blast
    with ih fj have "\<exists>src dst. lookup st' f = Some src \<and> lookup st' (webp_name f) = Some dst
                       \<and> ent_mtime src < ent_mtime dst"
      by blast
    then have "\<forall>f'\<in>set (f # fs). \<exists>src dst. lookup st' f' = Some src
                 \<and> lookup st' (webp_name f') = Some dst \<and> ent_mtime src < ent_mtime dst"
      using ih by (simp (no_asm_simp) del: ex_simps)
    with ih show ?thesis by blast
  next
    case False
    obtain st1 lines where c: "convert_jpg_to_webp w st f (webp_name f) = (st1, lines)"
      by (cases "convert_jpg_to_webp w st f (webp_name f)") auto
    have "up_to_date st f (webp_name f) = Inr False" using u False by (simp only:)
    with c Cons.prems(1)
    have r: "main_loop w (st1, n + 1, out @ lines) fs = (st', n', out', exc)"
      by (simp add: Let_def)
    from main_loop_extends [OF r] obtain more where "out' = (out @ lines) @ more" by blast
    with ok have "\<forall>p e. ErrorConverting p e \<notin> set lines" by simp
    with convert_jpg_to_webp_cases [OF c] obtain e1 a b c where
      st1: "st1 = write_entry st (webp_name f) e1" and t: "ent_mtime e1 = write_time w f"
      and lines: "lines = [Converted f (webp_name f), Sizes a b c]"
      by auto
    have "Converted f (webp_name f) \<in> set out'"
      using \<open>out' = (out @ lines) @ more\<close> lines by simp
    with Cons.prems(4) fsrc have clock: "ent_mtime fsrc < write_time w f" by simp
    have same: "\<And>g. is_jpg g \<Longrightarrow> lookup st1 g = lookup st g"
      using not_is_jpg_webp_name [of f] by (auto simp: st1 lookup_write_entry)
    have ih: "exc = None \<and> jpg_files st' = jpg_files st1 \<and> dir_exists st' = dir_exists st1
     \<and> (\<forall>g. is_jpg g \<longrightarrow> lookup st' g = lookup st1 g)
     \<and> (\<forall>g. is_jpg g \<longrightarrow>
           (\<exists>src dst. lookup st1 g = Some src \<and> lookup st1 (webp_name g) = Some dst
                       \<and> ent_mtime src < ent_mtime dst) \<longrightarrow>
           (\<exists>src dst. lookup st' g = Some src \<and> lookup st' (webp_name g) = Some dst
                       \<and> ent_mtime src < ent_mtime dst))
     \<and> (\<forall>f\<in>set fs. \<exists>src dst. lookup st' f = Some src \<and> lookup st' (webp_name f) = Some dst
                       \<and> ent_mtime src < ent_mtime dst)"
      using Cons.prems(2,3,4) same by (intro Cons.IH [OF r]) simp_all
    have keep: "\<And>g. is_jpg g \<Longrightarrow>
           (\<exists>src dst. lookup st g = Some src \<and> lookup st (webp_name g) = Some dst
                       \<and> ent_mtime src < ent_mtime dst) \<Longrightarrow>
           (\<exists>src dst. lookup st1 g = Some src \<and> lookup st1 (webp_name g) = Some dst
                       \<and> ent_mtime src < ent_mtime dst)"
      unfolding st1 using fsrc clock False by (intro newer_after_write) (simp_all add: t)
    have f1: "\<exists>src dst. lookup st1 f = Some src \<and> lookup st1 (webp_name f) = Some dst
                       \<and> ent_mtime src < ent_mtime dst"
      using same [OF fj] fsrc clock t by (simp add: st1 lookup_write_entry)
    with ih fj have ff: "\<exists>src dst. lookup st' f = Some src \<and> lookup st' (webp_name f) = Some dst
                       \<and> ent_mtime src < ent_mtime dst"
      by blast
    have j: "jpg_files st1 = jpg_files st"
      by (simp add: st1 jpg_files_write_entry not_is_jpg_webp_name)
    have d: "dir_exists st1 = dir_exists st" by (simp add: st1 dir_exists_write_entry)
    have all: "\<forall>f'\<in>set (f # fs). \<exists>src dst. lookup st' f' = Some src
                 \<and> lookup st' (webp_name f') = Some dst \<and> ent_mtime src < ent_mtime dst"
      using ih ff by (simp (no_asm_simp) del: ex_simps)
    have e: "exc = None" using ih by blast
    have j': "jpg_files st' = jpg_files st" using ih j by simp
    have d': "dir_exists st' = dir_exists st" using ih d by simp
    have l': "\<forall>g. is_jpg g \<longrightarrow> lookup st' g = lookup st g" using ih same by simp
    have k': "\<forall>g. is_jpg g \<longrightarrow>
           (\<exists>src dst. lookup st g = Some src \<and> lookup st (webp_name g) = Some dst
                       \<and> ent_mtime src < ent_mtime dst) \<longrightarrow>
           (\<exists>src dst. lookup st' g = Some src \<and> lookup st' (webp_name g) = Some dst
                       \<and> ent_mtime src < ent_mtime dst)"
      using ih keep by blast
    from e j' d' l' k' all show ?thesis by blast
  qed
qed

lemma listed_lookup: "f \<in> set (jpg_files st) \<Longrightarrow> is_jpg f \<and> (\<exists>src. lookup st f = Some src)"
proof -
  assume "f \<in> set (jpg_files st)"
  then have j: "is_jpg f" and "f \<in> fst ` set (dir_entries st)"
    by (simp_all add: jpg_files_def listdir_def)
  then have "map_of (dir_entries st) f \<noteq> None" by (simp add: map_of_eq_None_iff)
  with j show ?thesis by (auto simp: lookup_def)
qed

lemma main_loop_counts_attempts:
  assumes "main_loop w (st, n, out) fs = (st', n', out', exc)"
  shows "n' + length (filter (\<lambda>ev. (\<exists>a b. ev = Converted a b) \<or> (\<exists>p e. ev = ErrorConverting p e)) out)
       = n + length (filter (\<lambda>ev. (\<exists>a b. ev = Converted a b) \<or> (\<exists>p e. ev = ErrorConverting p e)) out')"
  using assms
proof (induction fs arbitrary: st n out)
  case Nil
  then show ?case by simp
next
  case (Cons f fs)
  show ?case
  proof (cases "up_to_date st f (webp_name f)")
    case (Inl e)
    with Cons.prems show ?thesis by (simp add: Let_def)
  next
    case (Inr b)
    show ?thesis
    proof (cases b)
      case True
      with Inr Cons.prems have "main_loop w (st, n, out @ [Skipping f]) fs = (st', n', out', exc)"
        by (simp add: Let_def)
      from Cons.IH [OF this] show ?thesis by simp
    next
      case False
      obtain st1 lines where c: "convert_jpg_to_webp w st f (webp_name f) = (st1, lines)"
        by (cases "convert_jpg_to_webp w st f (webp_name f)") auto
      with False Inr Cons.prems have "main_loop w (st1, n + 1, out @ lines) fs = (st', n', out', exc)"
        by (simp add: Let_def)
      from Cons.IH [OF this] convert_jpg_to_webp_cases [OF c] show ?thesis by auto
    qed
  qed
qed

lemma converted_count_is_attempts:
  assumes "main w st = (st', out, exc)" "Complete k \<in> set out"
  shows "k = length (filter (\<lambda>ev. (\<exists>a b. ev = Converted a b) \<or> (\<exists>p e. ev = ErrorConverting p e)) out)"
proof -
  from assms have ex: "dir_exists st" and ne: "jpg_files st \<noteq> []"
    by (auto simp: main_def split: if_splits)
  obtain sa n lg e where loop: "main_loop w (st, 0, [Converting]) (jpg_files st) = (sa, n, lg, e)"
    by (cases "main_loop w (st, 0, [Converting]) (jpg_files st)") auto
  from main_loop_extends [OF loop] obtain more where lg: "lg = [Converting] @ more" by blast
  have nc: "\<And>j. Complete j \<notin> set lg"
  proof -
    have "\<And>fs st n out st' n' out' exc j. main_loop w (st, n, out) fs = (st', n', out', exc) \<Longrightarrow>
            Complete j \<in> set out' \<Longrightarrow> Complete j \<in> set out"
    proof -
      fix fs st n out st' n' out' exc j
      show "main_loop w (st, n, out) fs = (st', n', out', exc) \<Longrightarrow>
            Complete j \<in> set out' \<Longrightarrow> Complete j \<in> set out"
      proof (induction fs arbitrary: st n out)
        case Nil
        then show ?case by simp
      next
        case (Cons f fs)
        show ?case
        proof (cases "up_to_date st f (webp_name f)")
          case (Inl e)
          with Cons.prems show ?thesis by (simp add: Let_def)
        next
          case (Inr b)
          show ?thesis
          proof (cases b)
            case True
            with Inr Cons.prems have "main_loop w (st, n, out @ [Skipping f]) fs = (st', n', out', exc)"
              by (simp add: Let_def)
            from Cons.IH [OF this Cons.prems(2)] show ?thesis by simp
          next
            case False
            obtain st1 lines where c: "convert_jpg_to_webp w st f (webp_name f) = (st1, lines)"
              by (cases "convert_jpg_to_webp w st f (webp_name f)") auto
            with False Inr Cons.prems
            have "main_loop w (st1, n + 1, out @ lines) fs = (st', n', out', exc)"
              by (simp add: Let_def)
            from Cons.IH [OF this Cons.prems(2)] convert_jpg_to_webp_cases [OF c]
            show ?thesis by auto
          qed
        qed
      qed
    qed
    from this [OF loop] show "\<And>j. Complete j \<notin> set lg" by auto
  qed
  from assms ex ne loop nc have "out = lg @ [Complete n, Hint]" and kn: "k = n"
    by (auto simp: main_def split: option.splits)
  with main_loop_counts_attempts [OF loop] show ?thesis by simp
qed

lemma fl_three_quarters: "fl (fl (3 / 4) * 100) = 75" by code_simp

lemma is_jpg_bad: "is_jpg ''bad.jpg''" by (simp add: is_jpg_def endswith_def lower_char_def)

lemma is_jpg_good: "is_jpg ''good.jpg''" by (simp add: is_jpg_def endswith_def lower_char_def)

lemma webp_name_good: "webp_name ''good.jpg'' = ''good.webp''"
  by (simp add: webp_name_def rsplit_head_def rfind_def)

lemma webp_name_bad: "webp_name ''bad.jpg'' = ''bad.webp''"
  by (simp add: webp_name_def rsplit_head_def rfind_def)

subsection \<open>The claims about the converter\<close>

text \<open>
  C6, at a directory with one file that is not an image and one image. The exception of the
  first file is caught and logged with its path, and the second file is still converted;
  but the summary line reports 2 converted images although one conversion succeeded.
  \<open>converted_count\<close> is incremented after every call of \<open>convert_jpg_to_webp\<close>, which
  returns normally after an exception too (lemma \<open>converted_count_is_attempts\<close>: the count
  is the number of conversions attempted, failed ones included).
\<close>

theorem converted_count_counts_failed_files:
  "snd (main \<lparr>rgb_pixels = (\<lambda>i x y. 0 :: nat), webp_bytes = (\<lambda>i. 1024), write_time = (\<lambda>f. 20)\<rparr>
         \<lparr>dir_exists = True,
          dir_entries =
            [(''bad.jpg'', \<lparr>ent_mtime = 10, ent_size = 2048, ent_kind = Regular OtherFile\<rparr>),
             (''good.jpg'', \<lparr>ent_mtime = 10, ent_size = 4096,
                ent_kind = Regular (ImageFile JPEG_85
                  \<lparr>img_width = 4, img_height = 3, img_mode = ''RGB'', img_data = (\<lambda>x y. 0)\<rparr>)\<rparr>)]\<rparr>)
   = ([Converting,
       ErrorConverting (image_dir @ ''bad.jpg'') UnidentifiedImageError,
       Converted ''good.jpg'' ''good.webp'',
       Sizes 4 1 75,
       Complete 2,
       Hint], None)"
  by (simp add: main_def jpg_files_def listdir_def is_jpg_bad is_jpg_good webp_name_good
        webp_name_bad up_to_date_def lookup_def getmtime_def getsize_def convert_jpg_to_webp_def
        try_convert_def open_entry_def is_directory_def write_entry_def path_join_def
        image_dir_def Let_def fl_three_quarters)

text \<open>
  C8. A listed source is skipped exactly when its output exists with a modification time
  strictly greater than the source's; otherwise it is converted and counted. If a run
  logged no conversion error and every output it wrote got a modification time later than
  that of its source, then a second run on the directory as the first one left it changes
  nothing and converts nothing: it skips every source and reports 0 (or returns early, as
  the first run did, when the directory or the sources are missing).
\<close>

theorem second_run_converts_nothing:
  "(lookup st jpg_file = Some src \<longrightarrow>
      up_to_date st jpg_file (webp_name jpg_file)
        = Inr (\<exists>dst. lookup st (webp_name jpg_file) = Some dst \<and> ent_mtime src < ent_mtime dst)
      \<and> main_loop w (st, n, out) (jpg_file # rest) =
          (if \<exists>dst. lookup st (webp_name jpg_file) = Some dst \<and> ent_mtime src < ent_mtime dst
           then main_loop w (st, n, out @ [Skipping jpg_file]) rest
           else main_loop w
                  (fst (convert_jpg_to_webp w st jpg_file (webp_name jpg_file)), n + 1,
                   out @ snd (convert_jpg_to_webp w st jpg_file (webp_name jpg_file)))
                  rest))
   \<and> (main w st = (st1, out1, exc1) \<and> (\<forall>p e. ErrorConverting p e \<notin> set out1)
        \<and> (\<forall>f\<in>set (jpg_files st). \<forall>s. Converted f (webp_name f) \<in> set out1 \<longrightarrow>
               lookup st f = Some s \<longrightarrow> ent_mtime s < write_time w f)
       \<longrightarrow> exc1 = None
           \<and> main w2 st1 =
               (st1,
                (if \<not> dir_exists st then [DirectoryNotFound image_dir]
                 else if jpg_files st = [] then [Converting, NoJpgFound]
                 else Converting # map Skipping (jpg_files st) @ [Complete 0, Hint]),
                None))"
proof (intro conjI impI)
  assume s: "lookup st jpg_file = Some src"
  show u: "up_to_date st jpg_file (webp_name jpg_file)
        = Inr (\<exists>dst. lookup st (webp_name jpg_file) = Some dst \<and> ent_mtime src < ent_mtime dst)"
    using s by (rule up_to_date_listed)
  show "main_loop w (st, n, out) (jpg_file # rest) =
          (if \<exists>dst. lookup st (webp_name jpg_file) = Some dst \<and> ent_mtime src < ent_mtime dst
           then main_loop w (st, n, out @ [Skipping jpg_file]) rest
           else main_loop w
                  (fst (convert_jpg_to_webp w st jpg_file (webp_name jpg_file)), n + 1,
                   out @ snd (convert_jpg_to_webp w st jpg_file (webp_name jpg_file)))
                  rest)"
  proof (cases "\<exists>dst. lookup st (webp_name jpg_file) = Some dst \<and> ent_mtime src < ent_mtime dst")
    case True
    then have "up_to_date st jpg_file (webp_name jpg_file) = Inr True" using u by (simp only:)
    with True show ?thesis by (simp add: Let_def)
  next
    case False
    then have "up_to_date st jpg_file (webp_name jpg_file) = Inr False" using u by (simp only:)
    with False show ?thesis by (auto simp add: Let_def split: prod.splits)
  qed
next
  assume a: "main w st = (st1, out1, exc1) \<and> (\<forall>p e. ErrorConverting p e \<notin> set out1)
        \<and> (\<forall>f\<in>set (jpg_files st). \<forall>s. Converted f (webp_name f) \<in> set out1 \<longrightarrow>
               lookup st f = Some s \<longrightarrow> ent_mtime s < write_time w f)"
  then have run: "main w st = (st1, out1, exc1)"
    and ok: "\<forall>p e. ErrorConverting p e \<notin> set out1"
    and clock: "\<forall>f\<in>set (jpg_files st). \<forall>s. Converted f (webp_name f) \<in> set out1 \<longrightarrow>
               lookup st f = Some s \<longrightarrow> ent_mtime s < write_time w f"
    by blast+
  let ?out2 = "if \<not> dir_exists st then [DirectoryNotFound image_dir]
                 else if jpg_files st = [] then [Converting, NoJpgFound]
                 else Converting # map Skipping (jpg_files st) @ [Complete 0, Hint]"
  have "exc1 = None \<and> main w2 st1 = (st1, ?out2, None)"
  proof (cases "\<not> dir_exists st \<or> jpg_files st = []")
    case True
    with run have "st1 = st" "exc1 = None" by (auto simp: main_def split: if_splits)
    with True show ?thesis by (auto simp: main_def)
  next
    case False
    then have ex: "dir_exists st" and ne: "jpg_files st \<noteq> []" by simp_all
    obtain sa k lg e where loop: "main_loop w (st, 0, [Converting]) (jpg_files st) = (sa, k, lg, e)"
      by (cases "main_loop w (st, 0, [Converting]) (jpg_files st)") auto
    with run ex ne have st1: "st1 = sa" and sub: "set lg \<subseteq> set out1"
      and exc: "exc1 = e"
      by (auto simp: main_def split: option.splits)
    from sub ok have ok': "\<forall>p e. ErrorConverting p e \<notin> set lg" by blast
    have jpg: "\<forall>f\<in>set (jpg_files st). is_jpg f" using listed_lookup by blast
    have listed: "\<forall>f\<in>set (jpg_files st). \<exists>src. lookup st f = Some src"
      using listed_lookup by blast
    have clock': "\<forall>f\<in>set (jpg_files st). \<forall>s. Converted f (webp_name f) \<in> set lg \<longrightarrow>
               lookup st f = Some s \<longrightarrow> ent_mtime s < write_time w f"
      using clock sub by blast
    from main_loop_run [OF loop jpg listed clock' ok']
    have e: "e = None" and j: "jpg_files sa = jpg_files st" and d: "dir_exists sa = dir_exists st"
      and newer: "\<forall>f\<in>set (jpg_files st). \<exists>src dst. lookup sa f = Some src
                    \<and> lookup sa (webp_name f) = Some dst \<and> ent_mtime src < ent_mtime dst"
      by blast+
    from main_loop_all_up_to_date [OF newer, of w2 0 "[Converting]"]
    have "main_loop w2 (sa, 0, [Converting]) (jpg_files st)
            = (sa, 0, [Converting] @ map Skipping (jpg_files st), None)" .
    then have "main w2 sa = (sa, Converting # map Skipping (jpg_files st) @ [Complete 0, Hint], None)"
      using ex ne j d by (simp add: main_def)
    with e exc st1 ex ne show ?thesis by simp
  qed
  then show "exc1 = None" and "main w2 st1 = (st1, ?out2, None)" by simp_all
qed

theorem second_run_converts_nothing_witness:
  "main \<lparr>rgb_pixels = (\<lambda>i x y. 0 :: nat), webp_bytes = (\<lambda>i. 1024), write_time = (\<lambda>f. 20)\<rparr>
        \<lparr>dir_exists = True,
         dir_entries =
           [(''good.jpg'', \<lparr>ent_mtime = 10, ent_size = 4096,
               ent_kind = Regular (ImageFile JPEG_85
                 \<lparr>img_width = 4, img_height = 3, img_mode = ''RGB'', img_data = (\<lambda>x y. 0)\<rparr>)\<rparr>)]\<rparr>
     = (\<lparr>dir_exists = True,
         dir_entries =
           [(''good.jpg'', \<lparr>ent_mtime = 10, ent_size = 4096,
               ent_kind = Regular (ImageFile JPEG_85
                 \<lparr>img_width = 4, img_height = 3, img_mode = ''RGB'', img_data = (\<lambda>x y. 0)\<rparr>)\<rparr>),
            (''good.webp'', \<lparr>ent_mtime = 20, ent_size = 1024,
               ent_kind = Regular (ImageFile WebP_85
                 \<lparr>img_width = 4, img_height = 3, img_mode = ''RGB'', img_data = (\<lambda>x y. 0)\<rparr>)\<rparr>)]\<rparr>,
        [Converting, Converted ''good.jpg'' ''good.webp'', Sizes 4 1 75, Complete 1, Hint], None)
   \<and> main \<lparr>rgb_pixels = (\<lambda>i x y. 0 :: nat), webp_bytes = (\<lambda>i. 1024), write_time = (\<lambda>f. 30)\<rparr>
        \<lparr>dir_exists = True,
         dir_entries =
           [(''good.jpg'', \<lparr>ent_mtime = 10, ent_size = 4096,
               ent_kind = Regular (ImageFile JPEG_85
                 \<lparr>img_width = 4, img_height = 3, img_mode = ''RGB'', img_data = (\<lambda>x y. 0)\<rparr>)\<rparr>),
            (''good.webp'', \<lparr>ent_mtime = 20, ent_size = 1024,
               ent_kind = Regular (ImageFile WebP_85
                 \<lparr>img_width = 4, img_height = 3, img_mode = ''RGB'', img_data = (\<lambda>x y. 0)\<rparr>)\<rparr>)]\<rparr>
     = (\<lparr>dir_exists = True,
         dir_entries =
           [(''good.jpg'', \<lparr>ent_mtime = 10, ent_size = 4096,
               ent_kind = Regular (ImageFile JPEG_85
                 \<lparr>img_width = 4, img_height = 3, img_mode = ''RGB'', img_data = (\<lambda>x y. 0)\<rparr>)\<rparr>),
            (''good.webp'', \<lparr>ent_mtime = 20, ent_size = 1024,
               ent_kind = Regular (ImageFile WebP_85
                 \<lparr>img_width = 4, img_height = 3, img_mode = ''RGB'', img_data = (\<lambda>x y. 0)\<rparr>)\<rparr>)]\<rparr>,
        [Converting, Skipping ''good.jpg'', Complete 0, Hint], None)"
proof -
  let ?img = "\<lparr>img_width = 4, img_height = 3, img_mode = ''RGB'', img_data = (\<lambda>x y. 0 :: nat)\<rparr>"
  let ?src = "\<lparr>ent_mtime = 10, ent_size = 4096, ent_kind = Regular (ImageFile JPEG_85 ?img)\<rparr>"
  let ?dst = "\<lparr>ent_mtime = 20, ent_size = 1024, ent_kind = Regular (ImageFile WebP_85 ?img)\<rparr>"
  let ?st = "\<lparr>dir_exists = True, dir_entries = [(''good.jpg'', ?src)]\<rparr>"
  let ?st1 = "\<lparr>dir_exists = True, dir_entries = [(''good.jpg'', ?src), (''good.webp'', ?dst)]\<rparr>"
  let ?w = "\<lparr>rgb_pixels = (\<lambda>i x y. 0 :: nat), webp_bytes = (\<lambda>i. 1024), write_time = (\<lambda>f. 20)\<rparr>"
  let ?w2 = "\<lparr>rgb_pixels = (\<lambda>i x y. 0 :: nat), webp_bytes = (\<lambda>i. 1024), write_time = (\<lambda>f. 30)\<rparr>"
  let ?out1 = "[Converting, Converted ''good.jpg'' ''good.webp'', Sizes 4 1 75, Complete 1, Hint]"
  have files: "jpg_files ?st = [''good.jpg'']"
    by (simp add: jpg_files_def listdir_def is_jpg_good)
  have run1: "main ?w ?st = (?st1, ?out1, None)"
    by (simp add: main_def files webp_name_good up_to_date_def lookup_def getmtime_def
          getsize_def convert_jpg_to_webp_def try_convert_def open_entry_def is_directory_def
          write_entry_def Let_def fl_three_quarters)
  have ok: "\<forall>p e. ErrorConverting p e \<notin> set ?out1" by simp
  have clock: "\<forall>f\<in>set (jpg_files ?st). \<forall>s. Converted f (webp_name f) \<in> set ?out1 \<longrightarrow>
               lookup ?st f = Some s \<longrightarrow> ent_mtime s < write_time ?w f"
    by (simp add: files lookup_def)
  have "main ?w2 ?st1 = (?st1, [Converting, Skipping ''good.jpg'', Complete 0, Hint], None)"
    using second_run_converts_nothing [of ?st "''good.jpg''" ?src ?w 0 "[]" "[]" ?st1 ?out1 None ?w2]
      run1 ok clock
    by (simp add: files)
  with run1 show ?thesis by simp
qed

end
